theory Spec2Isabelle
  imports Main
begin

section \<open>Role catalog (module constants of security.py)\<close>

text \<open>
  The Python sets of names are lists without repetition; membership is \<open>x \<in> set xs\<close>
  and the union \<open>|\<close> is list append read as a set.
\<close>

definition VIEWER_VMS :: "string list" where
  "VIEWER_VMS = [''Airflow'', ''DagModelView'', ''Browse'', ''DAG Runs'', ''DagRunModelView'',
     ''Task Instances'', ''TaskInstanceModelView'', ''SLA Misses'', ''SlaMissModelView'',
     ''Jobs'', ''JobModelView'', ''Logs'', ''LogModelView'', ''Docs'', ''Documentation'',
     ''Github'', ''About'', ''Version'', ''VersionView'']"

definition USER_VMS :: "string list" where
  "USER_VMS = VIEWER_VMS"

definition OP_VMS :: "string list" where
  "OP_VMS = [''Admin'', ''Configurations'', ''ConfigurationView'', ''Connections'',
     ''ConnectionModelView'', ''Pools'', ''PoolModelView'', ''Variables'',
     ''VariableModelView'', ''XComs'', ''XComModelView'']"

definition VIEWER_PERMS :: "string list" where
  "VIEWER_PERMS = [''menu_access'', ''can_index'', ''can_list'', ''can_show'', ''can_chart'',
     ''can_dag_stats'', ''can_dag_details'', ''can_task_stats'', ''can_code'', ''can_log'',
     ''can_get_logs_with_metadata'', ''can_tries'', ''can_graph'', ''can_tree'', ''can_task'',
     ''can_task_instances'', ''can_xcom'', ''can_gantt'', ''can_landing_times'',
     ''can_duration'', ''can_blocked'', ''can_rendered'', ''can_pickle_info'', ''can_version'']"

definition USER_PERMS :: "string list" where
  "USER_PERMS = [''can_dagrun_clear'', ''can_run'', ''can_trigger'', ''can_add'', ''can_edit'',
     ''can_delete'', ''can_paused'', ''can_refresh'', ''can_success'', ''muldelete'',
     ''set_failed'', ''set_running'', ''set_success'', ''clear'', ''can_clear'']"

definition OP_PERMS :: "string list" where
  "OP_PERMS = [''can_conf'', ''can_varimport'']"

definition DAG_VMS :: "string list" where
  "DAG_VMS = [''all_dags'']"

definition DAG_PERMS :: "string list" where
  "DAG_PERMS = [''can_dag_read'', ''can_dag_edit'']"

record role_config =
  cfg_role :: string
  cfg_perms :: "string list"
  cfg_vms :: "string list"

definition ROLE_CONFIGS :: "role_config list" where
  "ROLE_CONFIGS =
     [\<lparr>cfg_role = ''Viewer'', cfg_perms = VIEWER_PERMS, cfg_vms = VIEWER_VMS @ DAG_VMS\<rparr>,
      \<lparr>cfg_role = ''User'', cfg_perms = VIEWER_PERMS @ USER_PERMS @ DAG_PERMS,
       cfg_vms = VIEWER_VMS @ DAG_VMS @ USER_VMS\<rparr>,
      \<lparr>cfg_role = ''Op'', cfg_perms = VIEWER_PERMS @ USER_PERMS @ OP_PERMS @ DAG_PERMS,
       cfg_vms = VIEWER_VMS @ DAG_VMS @ USER_VMS @ OP_VMS\<rparr>]"

definition EXISTING_ROLES :: "string list" where
  "EXISTING_ROLES = [''Admin'', ''Viewer'', ''User'', ''Op'', ''Public'']"


section \<open>The relational store\<close>

text \<open>
  The security manager works on five tables of the application-builder schema and reads
  the table of dag models. A row is a record of its columns; a table is the list of its
  rows in the order a query returns them. The two foreign keys of a permission-view are
  nullable: a row with a null reference is what the source calls a faulty permission.
  The association table is read and written through its two foreign-key columns only.
\<close>

record permission =
  p_id :: nat
  p_name :: string

record view_menu =
  vm_id :: nat
  vm_name :: string

record permission_view =
  pv_id :: nat
  permission_id :: "nat option"
  view_menu_id :: "nat option"

record role =
  r_id :: nat
  r_name :: string

record assoc_permissionview_role =
  permission_view_id :: nat
  role_id :: nat

record dag_model =
  dag_id :: string
  is_active :: bool
  is_paused :: bool
  is_subdag :: bool

record store =
  ab_permission :: "permission list"
  ab_view_menu :: "view_menu list"
  ab_permission_view :: "permission_view list"
  ab_role :: "role list"
  ab_permission_view_role :: "assoc_permissionview_role list"
  dag_table :: "dag_model list"

datatype error = AttributeError

text \<open>
  A procedure that changes the store and may raise returns \<open>Inr s'\<close> when it returns
  normally and \<open>Inl (e, s')\<close> when it raises \<open>e\<close>; \<open>s'\<close> is the committed store it
  leaves behind in either case.
\<close>

type_synonym outcome = "(error \<times> store) + store"

definition store_of :: "outcome \<Rightarrow> store" where
  "store_of r = (case r of Inl (e, s) \<Rightarrow> s | Inr s \<Rightarrow> s)"

text \<open>A new row takes the key after the largest key of its table.\<close>

definition next_id :: "nat list \<Rightarrow> nat" where
  "next_id ids = Suc (fold max ids 0)"


subsection \<open>Object navigation\<close>

text \<open>
  \<open>pv.permission\<close> and \<open>pv.view_menu\<close> load the referenced row, or give \<open>None\<close>;
  \<open>role.permissions\<close> is the collection of permission-view rows associated with the role.
\<close>

definition pv_permission :: "store \<Rightarrow> permission_view \<Rightarrow> permission option" where
  "pv_permission s pv =
     (case permission_id pv of None \<Rightarrow> None
      | Some i \<Rightarrow> find (\<lambda>p. p_id p = i) (ab_permission s))"

definition pv_view_menu :: "store \<Rightarrow> permission_view \<Rightarrow> view_menu option" where
  "pv_view_menu s pv =
     (case view_menu_id pv of None \<Rightarrow> None
      | Some i \<Rightarrow> find (\<lambda>v. vm_id v = i) (ab_view_menu s))"

definition role_permissions :: "store \<Rightarrow> role \<Rightarrow> permission_view list" where
  "role_permissions s r =
     filter (\<lambda>pv. \<lparr>permission_view_id = pv_id pv, role_id = r_id r\<rparr>
                    \<in> set (ab_permission_view_role s))
            (ab_permission_view s)"

text \<open>
  Assigning \<open>role.permissions = new\<close> deletes the association rows of the members that
  left the collection and inserts one row for each new member.
\<close>

definition set_role_permissions :: "store \<Rightarrow> role \<Rightarrow> permission_view list \<Rightarrow> store" where
  "set_role_permissions s r new =
     (let old = role_permissions s r;
          removed = filter (\<lambda>pv. pv \<notin> set new) old;
          added = filter (\<lambda>pv. pv \<notin> set old) (remdups new)
      in s\<lparr>ab_permission_view_role :=
             filter (\<lambda>a. \<not> (role_id a = r_id r \<and> permission_view_id a \<in> pv_id ` set removed))
                    (ab_permission_view_role s)
             @ map (\<lambda>pv. \<lparr>permission_view_id = pv_id pv, role_id = r_id r\<rparr>) added\<rparr>)"


subsection \<open>The security manager's primitives\<close>

definition find_role :: "store \<Rightarrow> string \<Rightarrow> role option" where
  "find_role s name = find (\<lambda>r. r_name r = name) (ab_role s)"

definition add_role :: "store \<Rightarrow> string \<Rightarrow> store \<times> role" where
  "add_role s name =
     (case find_role s name of
        Some r \<Rightarrow> (s, r)
      | None \<Rightarrow>
          (let r = \<lparr>r_id = next_id (map r_id (ab_role s)), r_name = name\<rparr>
           in (s\<lparr>ab_role := ab_role s @ [r]\<rparr>, r)))"

definition get_all_roles :: "store \<Rightarrow> role list" where
  "get_all_roles s = ab_role s"

definition find_permission :: "store \<Rightarrow> string \<Rightarrow> permission option" where
  "find_permission s name = find (\<lambda>p. p_name p = name) (ab_permission s)"

definition add_permission :: "store \<Rightarrow> string \<Rightarrow> store \<times> permission" where
  "add_permission s name =
     (case find_permission s name of
        Some p \<Rightarrow> (s, p)
      | None \<Rightarrow>
          (let p = \<lparr>p_id = next_id (map p_id (ab_permission s)), p_name = name\<rparr>
           in (s\<lparr>ab_permission := ab_permission s @ [p]\<rparr>, p)))"

definition find_view_menu :: "store \<Rightarrow> string \<Rightarrow> view_menu option" where
  "find_view_menu s name = find (\<lambda>v. vm_name v = name) (ab_view_menu s)"

definition add_view_menu :: "store \<Rightarrow> string \<Rightarrow> store \<times> view_menu" where
  "add_view_menu s name =
     (case find_view_menu s name of
        Some v \<Rightarrow> (s, v)
      | None \<Rightarrow>
          (let v = \<lparr>vm_id = next_id (map vm_id (ab_view_menu s)), vm_name = name\<rparr>
           in (s\<lparr>ab_view_menu := ab_view_menu s @ [v]\<rparr>, v)))"

text \<open>\<open>query(permissionview_model).filter_by(permission=p, view_menu=v).first()\<close>\<close>

definition query_pv_first :: "store \<Rightarrow> permission \<Rightarrow> view_menu \<Rightarrow> permission_view option" where
  "query_pv_first s p v =
     find (\<lambda>pv. permission_id pv = Some (p_id p) \<and> view_menu_id pv = Some (vm_id v))
          (ab_permission_view s)"

definition find_permission_view_menu :: "store \<Rightarrow> string \<Rightarrow> string \<Rightarrow> permission_view option" where
  "find_permission_view_menu s permission_name view_menu_name =
     (case (find_permission s permission_name, find_view_menu s view_menu_name) of
        (Some p, Some v) \<Rightarrow> query_pv_first s p v
      | _ \<Rightarrow> None)"

definition add_permission_view_menu :: "store \<Rightarrow> string \<Rightarrow> string \<Rightarrow> store" where
  "add_permission_view_menu s permission_name view_menu_name =
     (if permission_name = [] \<or> view_menu_name = [] then s
      else case find_permission_view_menu s permission_name view_menu_name of
        Some pv \<Rightarrow> s
      | None \<Rightarrow>
          (let (s1, vm) = add_view_menu s view_menu_name;
               (s2, perm) = add_permission s1 permission_name;
               pv = \<lparr>pv_id = next_id (map pv_id (ab_permission_view s2)),
                     permission_id = Some (p_id perm), view_menu_id = Some (vm_id vm)\<rparr>
           in s2\<lparr>ab_permission_view := ab_permission_view s2 @ [pv]\<rparr>))"


section \<open>The security manager (class AirflowSecurityManager)\<close>

subsection \<open>Reconciliation\<close>

text \<open>
  \<open>pvms = [p for p in query(PermissionView).all() if p.permission and p.view_menu]\<close>,
  the first two statements of \<open>init_role\<close> and of \<open>update_admin_perm_view\<close>.
\<close>

definition valid_pvms :: "store \<Rightarrow> permission_view list" where
  "valid_pvms s =
     filter (\<lambda>p. pv_permission s p \<noteq> None \<and> pv_view_menu s p \<noteq> None) (ab_permission_view s)"

definition init_role :: "store \<Rightarrow> string \<Rightarrow> string list \<Rightarrow> string list \<Rightarrow> store" where
  "init_role s role_name role_vms role_perms =
     (let pvms = valid_pvms s;
          (s1, role) = (case find_role s role_name of
                          Some r \<Rightarrow> (s, r)
                        | None \<Rightarrow> add_role s role_name)
      in if length (role_permissions s1 role) = 0 then
           (let role_pvms =
                  filter (\<lambda>pvm. case (pv_view_menu s1 pvm, pv_permission s1 pvm) of
                                   (Some v, Some p) \<Rightarrow>
                                     vm_name v \<in> set role_vms \<and> p_name p \<in> set role_perms
                                 | _ \<Rightarrow> False) pvms
            in set_role_permissions s1 role role_pvms)
         else s1)"

text \<open>
  \<open>clean_perms\<close> deletes the rows selected by
  \<open>or_(PermissionView.permission == None, PermissionView.view_menu == None)\<close> with one bulk
  delete on the permission-view table, and logs the count when it is not zero. The log
  lines it writes are returned beside the store.
\<close>

datatype log_record = Cleaning_faulty_perms | Deleted_faulty_permissions nat

definition faulty :: "permission_view \<Rightarrow> bool" where
  "faulty pv \<longleftrightarrow> permission_id pv = None \<or> view_menu_id pv = None"

definition clean_perms :: "store \<Rightarrow> store \<times> log_record list" where
  "clean_perms s =
     (let pvms = filter faulty (ab_permission_view s);
          deleted_count = length pvms;
          s1 = s\<lparr>ab_permission_view := filter (\<lambda>pv. \<not> faulty pv) (ab_permission_view s)\<rparr>
      in (s1, Cleaning_faulty_perms #
                (if deleted_count \<noteq> 0 then [Deleted_faulty_permissions deleted_count] else [])))"

definition merge_perm :: "store \<Rightarrow> string \<Rightarrow> string \<Rightarrow> store" where
  "merge_perm s permission_name view_menu_name =
     (let permission = find_permission s permission_name;
          view_menu = find_view_menu s view_menu_name;
          pv = (case (permission, view_menu) of
                  (Some p, Some v) \<Rightarrow> query_pv_first s p v
                | _ \<Rightarrow> None)
      in if pv = None \<and> permission_name \<noteq> [] \<and> view_menu_name \<noteq> []
         then add_permission_view_menu s permission_name view_menu_name
         else s)"

definition create_perm_vm_for_all_dag :: "store \<Rightarrow> store" where
  "create_perm_vm_for_all_dag s =
     fold (\<lambda>dag_vm s. fold (\<lambda>perm s. merge_perm s perm dag_vm) DAG_PERMS s) DAG_VMS s"

text \<open>
  \<open>create_custom_dag_permission_view\<close>, in its two halves. The first collects
  \<open>all_pvs\<close>, the (permission name, view-menu name) pairs of the valid rows, and merges the
  two dag permissions for \<open>all_dags\<close> and for every dag model that is active or paused and
  not a subdag. The nested function \<open>merge_pv\<close> tests the pair \<open>(view_menu, perm)\<close>
  against \<open>all_pvs\<close>, in that order, as the source does.
\<close>

definition pv_names :: "store \<Rightarrow> permission_view \<Rightarrow> (string \<times> string) option" where
  "pv_names s pv =
     (case (pv_permission s pv, pv_view_menu s pv) of
        (Some p, Some v) \<Rightarrow> Some (p_name p, vm_name v)
      | _ \<Rightarrow> None)"

definition merge_pv :: "(string \<times> string) list \<Rightarrow> store \<Rightarrow> string \<Rightarrow> string \<Rightarrow> store" where
  "merge_pv all_pvs s perm view_menu =
     (if view_menu \<noteq> [] \<and> perm \<noteq> [] \<and> (view_menu, perm) \<notin> set all_pvs
      then merge_perm s perm view_menu else s)"

definition all_dags_models :: "store \<Rightarrow> dag_model list" where
  "all_dags_models s =
     filter (\<lambda>d. \<not> is_subdag d) (filter (\<lambda>d. is_active d \<or> is_paused d) (dag_table s))"

definition create_dag_pvs :: "store \<Rightarrow> store" where
  "create_dag_pvs s =
     (let all_pvs = List.map_filter (pv_names s) (ab_permission_view s);
          s1 = fold (\<lambda>dag s. fold (\<lambda>perm s. merge_pv all_pvs s perm dag) DAG_PERMS s) DAG_VMS s
      in fold (\<lambda>dag s. fold (\<lambda>perm s. merge_pv all_pvs s perm (dag_id dag)) DAG_PERMS s)
              (all_dags_models s1) s1)"

text \<open>
  The second half reads the association rows of role \<open>User\<close> joined with their
  permission-view and its view-menu, leaves out those on the view-menu \<open>all_dags\<close>, and
  inserts for every role outside \<open>EXISTING_ROLES\<close> the rows it does not have. It raises
  when \<open>user_role\<close> or \<open>dag_vm\<close> is \<open>None\<close>.
\<close>

definition all_perm_view_by_user :: "store \<Rightarrow> role \<Rightarrow> view_menu \<Rightarrow> assoc_permissionview_role list" where
  "all_perm_view_by_user s user_role dag_vm =
     filter (\<lambda>a. role_id a = r_id user_role \<and>
                 (\<exists>pv \<in> set (ab_permission_view s).
                     pv_id pv = permission_view_id a \<and>
                     (\<exists>vm \<in> set (ab_view_menu s). view_menu_id pv = Some (vm_id vm)) \<and>
                     view_menu_id pv \<noteq> Some (vm_id dag_vm)))
            (ab_permission_view_role s)"

definition missing_perm_views :: "store \<Rightarrow> nat list \<Rightarrow> role \<Rightarrow> nat list" where
  "missing_perm_views s all_perm_views role =
     (let existing_perms_views =
            map permission_view_id (filter (\<lambda>a. role_id a = r_id role) (ab_permission_view_role s))
      in filter (\<lambda>i. i \<notin> set existing_perms_views) all_perm_views)"

definition grant_dag_roles :: "store \<Rightarrow> outcome" where
  "grant_dag_roles s =
     (let all_roles = get_all_roles s in
      case find_role s ''User'' of
        None \<Rightarrow> Inl (AttributeError, s)
      | Some user_role \<Rightarrow>
          (let dag_role = filter (\<lambda>role. r_name role \<notin> set EXISTING_ROLES) all_roles in
           case find_view_menu s ''all_dags'' of
             None \<Rightarrow> Inl (AttributeError, s)
           | Some dag_vm \<Rightarrow>
               (let all_perm_views =
                      remdups (map permission_view_id (all_perm_view_by_user s user_role dag_vm));
                    update_perm_views =
                      concat (map (\<lambda>role.
                         map (\<lambda>perm_view_id. \<lparr>permission_view_id = perm_view_id, role_id = r_id role\<rparr>)
                             (missing_perm_views s all_perm_views role)) dag_role)
                in Inr (s\<lparr>ab_permission_view_role := ab_permission_view_role s @ update_perm_views\<rparr>))))"

definition create_custom_dag_permission_view :: "store \<Rightarrow> outcome" where
  "create_custom_dag_permission_view s = grant_dag_roles (create_dag_pvs s)"

definition update_admin_perm_view :: "store \<Rightarrow> outcome" where
  "update_admin_perm_view s =
     (let pvms = valid_pvms s in
      case find_role s ''Admin'' of
        None \<Rightarrow> Inl (AttributeError, s)
      | Some admin \<Rightarrow>
          Inr (set_role_permissions s admin (remdups (role_permissions s admin @ pvms))))"

definition init_roles :: "store \<Rightarrow> store" where
  "init_roles s =
     fold (\<lambda>config s. init_role s (cfg_role config) (cfg_vms config) (cfg_perms config))
          ROLE_CONFIGS s"

definition sync_roles :: "store \<Rightarrow> outcome" where
  "sync_roles s =
     (let s1 = create_perm_vm_for_all_dag s;
          s2 = init_roles s1
      in case create_custom_dag_permission_view s2 of
           Inl e \<Rightarrow> Inl e
         | Inr s3 \<Rightarrow>
             (case update_admin_perm_view s3 of
                Inl e \<Rightarrow> Inl e
              | Inr s4 \<Rightarrow> Inr (fst (clean_perms s4))))"



subsection \<open>Access queries\<close>

text \<open>
  A user carries the flag \<open>is_anonymous\<close> and the list of its role rows. The request
  context holds the current user \<open>g.user\<close> and the configured name of the public role.
  The attribute \<open>self.perms\<close> is absent (\<open>None\<close>) until \<open>_get_and_cache_perms\<close> sets it.
\<close>

record user =
  is_anonymous :: bool
  roles :: "role list"

record request =
  g_user :: user
  AUTH_ROLE_PUBLIC :: "string option"


definition get_user_roles :: "request \<Rightarrow> store \<Rightarrow> user option \<Rightarrow> role option list" where
  "get_user_roles c s user_arg =
     (let u = (case user_arg of None \<Rightarrow> g_user c | Some u \<Rightarrow> u) in
      if is_anonymous u then
        (case AUTH_ROLE_PUBLIC c of
           None \<Rightarrow> []
         | Some public_role \<Rightarrow> if public_role = [] then [] else [find_role s public_role])
      else map Some (roles u))"

text \<open>
  The names of one role's permission-views; reading \<open>.permissions\<close> of \<open>None\<close> or
  \<open>.name\<close> of a missing permission or view-menu raises.
\<close>

definition role_perm_view_names :: "store \<Rightarrow> role option \<Rightarrow> error + (string \<times> string) list" where
  "role_perm_view_names s role =
     (case role of
        None \<Rightarrow> Inl AttributeError
      | Some r \<Rightarrow>
          (if \<forall>perm_view \<in> set (role_permissions s r). pv_names s perm_view \<noteq> None
           then Inr (List.map_filter (pv_names s) (role_permissions s r))
           else Inl AttributeError))"

fun perms_views_update :: "store \<Rightarrow> role option list \<Rightarrow> (string \<times> string) list
    \<Rightarrow> error + (string \<times> string) list" where
  "perms_views_update s [] perms_views = Inr perms_views"
| "perms_views_update s (role # rest) perms_views =
     (case role_perm_view_names s role of
        Inl e \<Rightarrow> Inl e
      | Inr names \<Rightarrow> perms_views_update s rest (List.union perms_views names))"

definition get_all_permissions_views :: "request \<Rightarrow> store \<Rightarrow> error + (string \<times> string) list" where
  "get_all_permissions_views c s = perms_views_update s (get_user_roles c s None) []"

text \<open>
  \<open>'Public' in username.roles\<close> compares a string with role objects; the role class
  defines no equality with strings, so no element of the list is equal to the string.
\<close>

definition str_eq_role :: "string \<Rightarrow> role \<Rightarrow> bool" where
  "str_eq_role x r = False"

definition get_accessible_dag_ids :: "request \<Rightarrow> store \<Rightarrow> user option \<Rightarrow> error + string list" where
  "get_accessible_dag_ids c s username_arg =
     (let username = (case username_arg of None \<Rightarrow> g_user c | Some u \<Rightarrow> u) in
      if is_anonymous username \<or> (\<exists>r \<in> set (roles username). str_eq_role ''Public'' r)
      then Inr []
      else
        (let role_names = map r_name (roles username) in
         if \<exists>n \<in> set [''Admin'', ''Viewer'', ''User'', ''Op'']. n \<in> set role_names
         then Inr DAG_VMS
         else case get_all_permissions_views c s of
                Inl e \<Rightarrow> Inl e
              | Inr user_perms_views \<Rightarrow>
                  Inr (remdups (map snd (filter (\<lambda>(perm, view). perm \<in> set DAG_PERMS)
                                                user_perms_views)))))"





section \<open>Schema constraints, auxiliary notions and concrete stores\<close>

definition s_orphan :: store where
  "s_orphan = \<lparr>ab_permission = [], ab_view_menu = [\<lparr>vm_id = 1, vm_name = ''Airflow''\<rparr>],
      ab_permission_view = [\<lparr>pv_id = 1, permission_id = None, view_menu_id = Some 1\<rparr>],
      ab_role = [\<lparr>r_id = 1, r_name = ''Admin''\<rparr>],
      ab_permission_view_role = [], dag_table = []\<rparr>"


definition pk_unique :: "store \<Rightarrow> bool" where
  "pk_unique s \<longleftrightarrow>
     distinct (map p_id (ab_permission s)) \<and> distinct (map vm_id (ab_view_menu s)) \<and>
     distinct (map pv_id (ab_permission_view s)) \<and> distinct (map r_id (ab_role s))"

definition names_unique :: "store \<Rightarrow> bool" where
  "names_unique s \<longleftrightarrow>
     distinct (map p_name (ab_permission s)) \<and> distinct (map vm_name (ab_view_menu s)) \<and>
     distinct (map r_name (ab_role s))"

definition fk_valid :: "store \<Rightarrow> bool" where
  "fk_valid s \<longleftrightarrow>
     (\<forall>pv \<in> set (ab_permission_view s).
        (case permission_id pv of None \<Rightarrow> True | Some i \<Rightarrow> i \<in> set (map p_id (ab_permission s))) \<and>
        (case view_menu_id pv of None \<Rightarrow> True | Some i \<Rightarrow> i \<in> set (map vm_id (ab_view_menu s)))) \<and>
     (\<forall>a \<in> set (ab_permission_view_role s). role_id a \<in> set (map r_id (ab_role s)))"

definition wf_store :: "store \<Rightarrow> bool" where
  "wf_store s \<longleftrightarrow> pk_unique s \<and> names_unique s \<and> fk_valid s"

definition wext :: "store \<Rightarrow> store \<Rightarrow> bool" where
  "wext s s' \<longleftrightarrow> wf_store s \<and> wf_store s' \<and>
     (\<exists>xs. ab_permission s' = ab_permission s @ xs) \<and>
     (\<exists>xs. ab_view_menu s' = ab_view_menu s @ xs) \<and>
     (\<exists>xs. ab_permission_view s' = ab_permission_view s @ xs \<and>
           (\<forall>pv \<in> set xs. \<exists>p v. pv_names s' pv = Some (p, v) \<and> p \<in> set DAG_PERMS)) \<and>
     (\<exists>xs. ab_role s' = ab_role s @ xs) \<and>
     set (ab_permission_view_role s) \<subseteq> set (ab_permission_view_role s') \<and>
     dag_table s' = dag_table s"

definition ext :: "store \<Rightarrow> store \<Rightarrow> bool" where
  "ext s s' \<longleftrightarrow> wext s s' \<and>
     (\<forall>a \<in> set (ab_permission_view_role s') - set (ab_permission_view_role s).
        \<forall>pv \<in> set (ab_permission_view s'). pv_id pv = permission_view_id a \<longrightarrow> \<not> faulty pv)"

definition role_seed :: "store \<Rightarrow> string list \<Rightarrow> string list \<Rightarrow> permission_view list" where
  "role_seed s role_vms role_perms =
     filter (\<lambda>pvm. case (pv_view_menu s pvm, pv_permission s pvm) of
                      (Some v, Some p) \<Rightarrow> vm_name v \<in> set role_vms \<and> p_name p \<in> set role_perms
                    | _ \<Rightarrow> False) (valid_pvms s)"

definition s_seeded :: store where
  "s_seeded = \<lparr>ab_permission = [\<lparr>p_id = 1, p_name = ''can_index''\<rparr>, \<lparr>p_id = 2, p_name = ''can_show''\<rparr>],
      ab_view_menu = [\<lparr>vm_id = 1, vm_name = ''Airflow''\<rparr>],
      ab_permission_view = [\<lparr>pv_id = 1, permission_id = Some 1, view_menu_id = Some 1\<rparr>,
                            \<lparr>pv_id = 2, permission_id = Some 2, view_menu_id = Some 1\<rparr>],
      ab_role = [\<lparr>r_id = 1, r_name = ''Admin''\<rparr>, \<lparr>r_id = 2, r_name = ''Viewer''\<rparr>],
      ab_permission_view_role = [\<lparr>permission_view_id = 1, role_id = 2\<rparr>],
      dag_table = []\<rparr>"

definition s_dashboard :: store where
  "s_dashboard = \<lparr>ab_permission = [\<lparr>p_id = 1, p_name = ''can_show''\<rparr>, \<lparr>p_id = 2, p_name = ''can_edit''\<rparr>],
      ab_view_menu = [\<lparr>vm_id = 1, vm_name = ''Dashboard''\<rparr>],
      ab_permission_view = [\<lparr>pv_id = 1, permission_id = Some 1, view_menu_id = Some 1\<rparr>,
                            \<lparr>pv_id = 2, permission_id = Some 2, view_menu_id = Some 1\<rparr>,
                            \<lparr>pv_id = 3, permission_id = None, view_menu_id = Some 1\<rparr>],
      ab_role = [\<lparr>r_id = 1, r_name = ''Admin''\<rparr>, \<lparr>r_id = 2, r_name = ''Viewer''\<rparr>],
      ab_permission_view_role = [\<lparr>permission_view_id = 2, role_id = 1\<rparr>],
      dag_table = []\<rparr>"


definition s_wild :: store where
  "s_wild = \<lparr>ab_permission = [\<lparr>p_id = 1, p_name = ''can_dag_read''\<rparr>],
      ab_view_menu = [\<lparr>vm_id = 1, vm_name = ''all_dags''\<rparr>, \<lparr>vm_id = 2, vm_name = ''wf-1''\<rparr>],
      ab_permission_view = [\<lparr>pv_id = 1, permission_id = Some 1, view_menu_id = Some 1\<rparr>,
                            \<lparr>pv_id = 2, permission_id = Some 1, view_menu_id = Some 2\<rparr>],
      ab_role = [\<lparr>r_id = 1, r_name = ''Admin''\<rparr>, \<lparr>r_id = 2, r_name = ''wf-1-editors''\<rparr>,
                 \<lparr>r_id = 3, r_name = ''Public''\<rparr>],
      ab_permission_view_role = [\<lparr>permission_view_id = 1, role_id = 2\<rparr>,
                                 \<lparr>permission_view_id = 2, role_id = 2\<rparr>,
                                 \<lparr>permission_view_id = 2, role_id = 3\<rparr>],
      dag_table = []\<rparr>"




definition c_public :: request where
  "c_public = \<lparr>g_user = \<lparr>is_anonymous = False, roles = [\<lparr>r_id = 3, r_name = ''Public''\<rparr>]\<rparr>,
               AUTH_ROLE_PUBLIC = Some ''Public''\<rparr>"

definition grant_rows :: "store \<Rightarrow> role \<Rightarrow> view_menu \<Rightarrow> assoc_permissionview_role list" where
  "grant_rows s user_role dag_vm =
     concat (map (\<lambda>role.
        map (\<lambda>perm_view_id. \<lparr>permission_view_id = perm_view_id, role_id = r_id role\<rparr>)
            (missing_perm_views s
               (remdups (map permission_view_id (all_perm_view_by_user s user_role dag_vm))) role))
        (filter (\<lambda>role. r_name role \<notin> set EXISTING_ROLES) (get_all_roles s)))"

definition before_grant :: "store \<Rightarrow> store" where
  "before_grant s = create_dag_pvs (init_roles (create_perm_vm_for_all_dag s))"

definition after_grant :: "store \<Rightarrow> role \<Rightarrow> view_menu \<Rightarrow> store" where
  "after_grant s u dv =
     (before_grant s)\<lparr>ab_permission_view_role :=
        ab_permission_view_role (before_grant s) @ grant_rows (before_grant s) u dv\<rparr>"

definition s_admin_orphan :: store where
  "s_admin_orphan = \<lparr>ab_permission = [\<lparr>p_id = 1, p_name = ''can_index''\<rparr>],
      ab_view_menu = [\<lparr>vm_id = 1, vm_name = ''Airflow''\<rparr>],
      ab_permission_view = [\<lparr>pv_id = 1, permission_id = None, view_menu_id = Some 1\<rparr>,
                            \<lparr>pv_id = 2, permission_id = Some 1, view_menu_id = Some 1\<rparr>],
      ab_role = [\<lparr>r_id = 1, r_name = ''Admin''\<rparr>],
      ab_permission_view_role = [\<lparr>permission_view_id = 1, role_id = 1\<rparr>],
      dag_table = []\<rparr>"


definition new_pvs_named :: "string set \<Rightarrow> store \<Rightarrow> store \<Rightarrow> bool" where
  "new_pvs_named V s s' \<longleftrightarrow>
     (\<forall>pv \<in> set (ab_permission_view s') - set (ab_permission_view s).
        \<exists>p v. pv_names s' pv = Some (p, v) \<and> p \<in> set DAG_PERMS \<and> v \<in> V)"

definition s_dags :: store where
  "s_dags = \<lparr>ab_permission = [], ab_view_menu = [], ab_permission_view = [],
      ab_role = [\<lparr>r_id = 1, r_name = ''Admin''\<rparr>, \<lparr>r_id = 2, r_name = ''Public''\<rparr>],
      ab_permission_view_role = [],
      dag_table = [\<lparr>dag_id = ''wf-1'', is_active = True, is_paused = False, is_subdag = False\<rparr>,
                   \<lparr>dag_id = ''wf-1.sub'', is_active = True, is_paused = False, is_subdag = True\<rparr>,
                   \<lparr>dag_id = ''old'', is_active = False, is_paused = False, is_subdag = False\<rparr>]\<rparr>"

definition s_empty_dag :: store where
  "s_empty_dag = \<lparr>ab_permission = [], ab_view_menu = [], ab_permission_view = [],
      ab_role = [\<lparr>r_id = 1, r_name = ''Admin''\<rparr>],
      ab_permission_view_role = [],
      dag_table = [\<lparr>dag_id = [], is_active = True, is_paused = False, is_subdag = False\<rparr>]\<rparr>"

definition s_swapped :: store where
  "s_swapped = \<lparr>ab_permission = [\<lparr>p_id = 1, p_name = ''wf-1''\<rparr>],
      ab_view_menu = [\<lparr>vm_id = 1, vm_name = ''can_dag_read''\<rparr>],
      ab_permission_view = [\<lparr>pv_id = 1, permission_id = Some 1, view_menu_id = Some 1\<rparr>],
      ab_role = [\<lparr>r_id = 1, r_name = ''Admin''\<rparr>],
      ab_permission_view_role = [],
      dag_table = [\<lparr>dag_id = ''wf-1'', is_active = True, is_paused = False, is_subdag = False\<rparr>]\<rparr>"









section \<open>Auxiliary lemmas\<close>

lemma clean_perms_fst:
  "fst (clean_perms s) = s\<lparr>ab_permission_view := filter (\<lambda>pv. \<not> faulty pv) (ab_permission_view s)\<rparr>"
  by (simp add: clean_perms_def Let_def)

lemma clean_perms_snd:
  "snd (clean_perms s) = Cleaning_faulty_perms #
     (if length (filter faulty (ab_permission_view s)) \<noteq> 0
      then [Deleted_faulty_permissions (length (filter faulty (ab_permission_view s)))] else [])"
  by (simp add: clean_perms_def Let_def)

lemma sync_roles_Inr_clean:
  "sync_roles s = Inr s' \<Longrightarrow> \<exists>s4. s' = fst (clean_perms s4)"
  by (auto simp: sync_roles_def Let_def split: sum.splits)


lemma fold_max_ge: "a \<le> fold max ids (a::nat)"
  by (induction ids arbitrary: a) (auto intro: order_trans [OF max.cobounded2])

lemma fold_max_mem: "i \<in> set ids \<Longrightarrow> i \<le> fold max ids (a::nat)"
proof (induction ids arbitrary: a)
  case Nil then show ?case by simp
next
  case (Cons x xs)
  show ?case
  proof (cases "i = x")
    case True
    have "x \<le> max x a" by simp
    also have "\<dots> \<le> fold max xs (max x a)" by (rule fold_max_ge)
    finally show ?thesis using True by simp
  next
    case False
    with Cons show ?thesis by simp
  qed
qed

lemma next_id_gt: "i \<in> set ids \<Longrightarrow> i < next_id ids"
  unfolding next_id_def using fold_max_mem [of i ids 0] by simp

lemma next_id_notin: "next_id ids \<notin> set ids"
  using next_id_gt [of "next_id ids" ids] by auto

lemma find_append_Some: "find P xs = Some x \<Longrightarrow> find P (xs @ ys) = Some x"
  by (induction xs) (auto split: if_splits)

lemma find_append_None: "find P xs = None \<Longrightarrow> find P (xs @ ys) = find P ys"
  by (induction xs) (auto split: if_splits)

lemma find_Some_mem: "find P xs = Some x \<Longrightarrow> x \<in> set xs \<and> P x"
  by (induction xs) (auto split: if_splits)

lemma find_distinct_key:
  "distinct (map f xs) \<Longrightarrow> x \<in> set xs \<Longrightarrow> find (\<lambda>y. f y = f x) xs = Some x"
  by (induction xs) (auto simp: image_iff)

lemma find_filter_keep:
  "(\<And>x. P x \<Longrightarrow> Q x) \<Longrightarrow> find P (filter Q xs) = find P xs"
  by (induction xs) auto

lemma opt_case_iff: "(case x of None \<Rightarrow> True | Some i \<Rightarrow> P i) \<longleftrightarrow> (\<forall>i. x = Some i \<longrightarrow> P i)"
  by (cases x) auto

lemma fk_valid_iff:
  "fk_valid s \<longleftrightarrow>
     (\<forall>pv \<in> set (ab_permission_view s). \<forall>i. permission_id pv = Some i \<longrightarrow> i \<in> p_id ` set (ab_permission s)) \<and>
     (\<forall>pv \<in> set (ab_permission_view s). \<forall>i. view_menu_id pv = Some i \<longrightarrow> i \<in> vm_id ` set (ab_view_menu s)) \<and>
     (\<forall>a \<in> set (ab_permission_view_role s). role_id a \<in> r_id ` set (ab_role s))"
  unfolding fk_valid_def opt_case_iff set_map by blast

lemma add_view_menu_props:
  assumes "wf_store s" "add_view_menu s n = (s1, vm)"
  shows "wf_store s1" "find_view_menu s1 n = Some vm"
    "\<exists>xs. ab_view_menu s1 = ab_view_menu s @ xs"
    "ab_permission s1 = ab_permission s" "ab_permission_view s1 = ab_permission_view s"
    "ab_role s1 = ab_role s" "ab_permission_view_role s1 = ab_permission_view_role s"
    "dag_table s1 = dag_table s"
proof -
  show "wf_store s1"
  proof (cases "find_view_menu s n")
    case None
    then have nm: "n \<notin> vm_name ` set (ab_view_menu s)"
      by (auto simp: find_view_menu_def find_None_iff)
    from None assms show ?thesis
      using next_id_notin [of "map vm_id (ab_view_menu s)"] nm
      by (auto simp: add_view_menu_def Let_def wf_store_def pk_unique_def names_unique_def
            fk_valid_iff split: option.splits)
  next
    case (Some v)
    with assms show ?thesis by (simp add: add_view_menu_def)
  qed
  show "find_view_menu s1 n = Some vm"
    using assms(2)
    by (auto simp: add_view_menu_def Let_def find_view_menu_def find_append_None
          split: option.splits)
  show "\<exists>xs. ab_view_menu s1 = ab_view_menu s @ xs"
    using assms(2) by (auto simp: add_view_menu_def Let_def split: option.splits)
  show "ab_permission s1 = ab_permission s" "ab_permission_view s1 = ab_permission_view s"
    "ab_role s1 = ab_role s" "ab_permission_view_role s1 = ab_permission_view_role s"
    "dag_table s1 = dag_table s"
    using assms(2) by (auto simp: add_view_menu_def Let_def split: option.splits)
qed

lemma add_permission_props:
  assumes "wf_store s" "add_permission s n = (s1, perm)"
  shows "wf_store s1" "find_permission s1 n = Some perm"
    "\<exists>xs. ab_permission s1 = ab_permission s @ xs"
    "ab_view_menu s1 = ab_view_menu s" "ab_permission_view s1 = ab_permission_view s"
    "ab_role s1 = ab_role s" "ab_permission_view_role s1 = ab_permission_view_role s"
    "dag_table s1 = dag_table s"
proof -
  show "wf_store s1"
  proof (cases "find_permission s n")
    case None
    then have nm: "n \<notin> p_name ` set (ab_permission s)"
      by (auto simp: find_permission_def find_None_iff)
    from None assms show ?thesis
      using next_id_notin [of "map p_id (ab_permission s)"] nm
      by (auto simp: add_permission_def Let_def wf_store_def pk_unique_def names_unique_def
            fk_valid_iff split: option.splits)
  next
    case (Some v)
    with assms show ?thesis by (simp add: add_permission_def)
  qed
  show "find_permission s1 n = Some perm"
    using assms(2)
    by (auto simp: add_permission_def Let_def find_permission_def find_append_None
          split: option.splits)
  show "\<exists>xs. ab_permission s1 = ab_permission s @ xs"
    using assms(2) by (auto simp: add_permission_def Let_def split: option.splits)
  show "ab_view_menu s1 = ab_view_menu s" "ab_permission_view s1 = ab_permission_view s"
    "ab_role s1 = ab_role s" "ab_permission_view_role s1 = ab_permission_view_role s"
    "dag_table s1 = dag_table s"
    using assms(2) by (auto simp: add_permission_def Let_def split: option.splits)
qed

lemma add_role_props:
  assumes "wf_store s" "add_role s n = (s1, r)"
  shows "wf_store s1" "find_role s1 n = Some r"
    "\<exists>xs. ab_role s1 = ab_role s @ xs"
    "ab_view_menu s1 = ab_view_menu s" "ab_permission_view s1 = ab_permission_view s"
    "ab_permission s1 = ab_permission s" "ab_permission_view_role s1 = ab_permission_view_role s"
    "dag_table s1 = dag_table s"
proof -
  show "wf_store s1"
  proof (cases "find_role s n")
    case None
    then have nm: "n \<notin> r_name ` set (ab_role s)"
      by (auto simp: find_role_def find_None_iff)
    from None assms show ?thesis
      using next_id_notin [of "map r_id (ab_role s)"] nm
      by (auto simp: add_role_def Let_def wf_store_def pk_unique_def names_unique_def
            fk_valid_iff split: option.splits)
  next
    case (Some v)
    with assms show ?thesis by (simp add: add_role_def)
  qed
  show "find_role s1 n = Some r"
    using assms(2)
    by (auto simp: add_role_def Let_def find_role_def find_append_None
          split: option.splits)
  show "\<exists>xs. ab_role s1 = ab_role s @ xs"
    using assms(2) by (auto simp: add_role_def Let_def split: option.splits)
  show "ab_view_menu s1 = ab_view_menu s" "ab_permission_view s1 = ab_permission_view s"
    "ab_permission s1 = ab_permission s" "ab_permission_view_role s1 = ab_permission_view_role s"
    "dag_table s1 = dag_table s"
    using assms(2) by (auto simp: add_role_def Let_def split: option.splits)
qed

lemma wext_refl: "wf_store s \<Longrightarrow> wext s s"
  by (simp add: wext_def)

lemma ext_refl: "wf_store s \<Longrightarrow> ext s s"
  by (simp add: ext_def wext_refl)

lemma pv_permission_mono:
  "ab_permission s' = ab_permission s @ xs \<Longrightarrow> pv_permission s pv = Some x
   \<Longrightarrow> pv_permission s' pv = Some x"
  by (auto simp: pv_permission_def find_append_Some split: option.splits)

lemma pv_view_menu_mono:
  "ab_view_menu s' = ab_view_menu s @ xs \<Longrightarrow> pv_view_menu s pv = Some x
   \<Longrightarrow> pv_view_menu s' pv = Some x"
  by (auto simp: pv_view_menu_def find_append_Some split: option.splits)

lemma pv_names_mono:
  assumes "ab_permission s' = ab_permission s @ xs" "ab_view_menu s' = ab_view_menu s @ ys"
    "pv_names s pv = Some x"
  shows "pv_names s' pv = Some x"
proof -
  from assms(3) obtain p v where a: "pv_permission s pv = Some p" "pv_view_menu s pv = Some v"
    and x: "x = (p_name p, vm_name v)"
    by (auto simp: pv_names_def split: option.splits)
  from pv_permission_mono [OF assms(1) a(1)] pv_view_menu_mono [OF assms(2) a(2)] x
  show ?thesis by (simp add: pv_names_def)
qed

lemma wext_trans:
  assumes "wext s s'" "wext s' s''"
  shows "wext s s''"
proof -
  from assms obtain ps vs pvs rs ps' vs' pvs' rs' where
    a: "ab_permission s' = ab_permission s @ ps" "ab_view_menu s' = ab_view_menu s @ vs"
       "ab_permission_view s' = ab_permission_view s @ pvs" "ab_role s' = ab_role s @ rs"
       "\<forall>pv \<in> set pvs. \<exists>p v. pv_names s' pv = Some (p, v) \<and> p \<in> set DAG_PERMS"
    and b: "ab_permission s'' = ab_permission s' @ ps'" "ab_view_menu s'' = ab_view_menu s' @ vs'"
       "ab_permission_view s'' = ab_permission_view s' @ pvs'" "ab_role s'' = ab_role s' @ rs'"
       "\<forall>pv \<in> set pvs'. \<exists>p v. pv_names s'' pv = Some (p, v) \<and> p \<in> set DAG_PERMS"
    unfolding wext_def by blast
  have c: "\<forall>pv \<in> set (pvs @ pvs'). \<exists>p v. pv_names s'' pv = Some (p, v) \<and> p \<in> set DAG_PERMS"
    using a(5) b(5) pv_names_mono [OF b(1) b(2)] by (metis Un_iff set_append)
  have "ab_permission_view s'' = ab_permission_view s @ (pvs @ pvs')"
    using a b by simp
  with c have d: "\<exists>xs. ab_permission_view s'' = ab_permission_view s @ xs \<and>
           (\<forall>pv \<in> set xs. \<exists>p v. pv_names s'' pv = Some (p, v) \<and> p \<in> set DAG_PERMS)"
    by blast
  have e: "\<exists>xs. ab_permission s'' = ab_permission s @ xs" "\<exists>xs. ab_view_menu s'' = ab_view_menu s @ xs"
     "\<exists>xs. ab_role s'' = ab_role s @ xs"
    using a b by simp_all
  from assms d e show ?thesis unfolding wext_def by (simp; blast)
qed

lemma pv_names_nonfaulty: "pv_names s pv = Some x \<Longrightarrow> \<not> faulty pv"
  by (auto simp: pv_names_def pv_permission_def pv_view_menu_def faulty_def split: option.splits)

lemma wext_new_pv:
  assumes "wext s s'" "pv \<in> set (ab_permission_view s')" "pv \<notin> set (ab_permission_view s)"
  shows "\<exists>p v. pv_names s' pv = Some (p, v) \<and> p \<in> set DAG_PERMS"
  using assms unfolding wext_def by auto

lemma wext_pvs_subset: "wext s s' \<Longrightarrow> set (ab_permission_view s) \<subseteq> set (ab_permission_view s')"
  unfolding wext_def by auto

lemma ext_trans:
  assumes "ext s s'" "ext s' s''"
  shows "ext s s''"
proof -
  have w: "wext s s''" using assms wext_trans unfolding ext_def by blast
  have "\<not> faulty pv" if a: "a \<in> set (ab_permission_view_role s'')"
      "a \<notin> set (ab_permission_view_role s)" "pv \<in> set (ab_permission_view s'')"
      "pv_id pv = permission_view_id a" for a pv
  proof (cases "a \<in> set (ab_permission_view_role s')")
    case False
    with a assms(2) show ?thesis unfolding ext_def by blast
  next
    case True
    show ?thesis
    proof (cases "pv \<in> set (ab_permission_view s')")
      case True
      with \<open>a \<in> set (ab_permission_view_role s')\<close> a assms(1) show ?thesis
        unfolding ext_def by blast
    next
      case False
      with a(3) assms(2) wext_new_pv [of s' s'' pv] pv_names_nonfaulty show ?thesis
        unfolding ext_def by blast
    qed
  qed
  with w show ?thesis unfolding ext_def by blast
qed

lemma find_permission_mem: "find_permission s n = Some p \<Longrightarrow> p \<in> set (ab_permission s) \<and> p_name p = n"
  unfolding find_permission_def by (rule find_Some_mem)

lemma find_view_menu_mem: "find_view_menu s n = Some v \<Longrightarrow> v \<in> set (ab_view_menu s) \<and> vm_name v = n"
  unfolding find_view_menu_def by (rule find_Some_mem)

lemma find_role_mem: "find_role s n = Some r \<Longrightarrow> r \<in> set (ab_role s) \<and> r_name r = n"
  unfolding find_role_def by (rule find_Some_mem)

lemma pv_names_of_rows:
  assumes "wf_store s" "perm \<in> set (ab_permission s)" "vm \<in> set (ab_view_menu s)"
    "permission_id pv = Some (p_id perm)" "view_menu_id pv = Some (vm_id vm)"
  shows "pv_names s pv = Some (p_name perm, vm_name vm)"
proof -
  from assms(1) have d: "distinct (map p_id (ab_permission s))" "distinct (map vm_id (ab_view_menu s))"
    by (simp_all add: wf_store_def pk_unique_def)
  from find_distinct_key [OF d(1) assms(2)] find_distinct_key [OF d(2) assms(3)] assms(4,5)
  show ?thesis by (simp add: pv_names_def pv_permission_def pv_view_menu_def)
qed

text \<open>What \<open>add_permission_view_menu\<close> does when it creates a row.\<close>

lemma add_permission_view_menu_new:
  assumes wf: "wf_store s" and ne: "p \<noteq> []" "v \<noteq> []"
    and nf: "find_permission_view_menu s p v = None"
  shows "\<exists>perm vm ps vs pv. add_permission_view_menu s p v =
           s\<lparr>ab_view_menu := ab_view_menu s @ vs, ab_permission := ab_permission s @ ps,
             ab_permission_view := ab_permission_view s @ [pv]\<rparr> \<and>
         pv = \<lparr>pv_id = next_id (map pv_id (ab_permission_view s)),
               permission_id = Some (p_id perm), view_menu_id = Some (vm_id vm)\<rparr> \<and>
         find_permission (add_permission_view_menu s p v) p = Some perm \<and>
         find_view_menu (add_permission_view_menu s p v) v = Some vm \<and>
         wf_store (add_permission_view_menu s p v)"
proof -
  obtain s1 vm where 1: "add_view_menu s v = (s1, vm)" by (cases "add_view_menu s v")
  obtain s2 perm where 2: "add_permission s1 p = (s2, perm)" by (cases "add_permission s1 p")
  note A = add_view_menu_props [OF wf 1]
  note B = add_permission_props [OF A(1) 2]
  define pv where "pv = \<lparr>pv_id = next_id (map pv_id (ab_permission_view s)),
               permission_id = Some (p_id perm), view_menu_id = Some (vm_id vm)\<rparr>"
  define s' where "s' = s2\<lparr>ab_permission_view := ab_permission_view s2 @ [pv]\<rparr>"
  have r: "add_permission_view_menu s p v = s'"
    using ne nf 1 2 A B by (simp add: add_permission_view_menu_def s'_def pv_def)
  from A(3) obtain vs where vs: "ab_view_menu s1 = ab_view_menu s @ vs" by blast
  from B(3) obtain ps where ps: "ab_permission s2 = ab_permission s1 @ ps" by blast
  have eq: "s' = s\<lparr>ab_view_menu := ab_view_menu s @ vs, ab_permission := ab_permission s @ ps,
             ab_permission_view := ab_permission_view s @ [pv]\<rparr>"
    unfolding s'_def using A B vs ps by (intro store.equality) simp_all
  have fp: "find_permission s' p = Some perm"
    using B(2) by (simp add: s'_def find_permission_def)
  have fv: "find_view_menu s' v = Some vm"
    using A(2) B(4) by (simp add: s'_def find_view_menu_def)
  have pm: "perm \<in> set (ab_permission s2)" using B(2) find_permission_mem by blast
  have vmm: "vm \<in> set (ab_view_menu s2)" using A(2) B(4) find_view_menu_mem [of s1 v vm]
    by simp
  have "wf_store s'"
    using B(1) pm vmm next_id_notin [of "map pv_id (ab_permission_view s)"] A(5) B(5)
    unfolding wf_store_def pk_unique_def names_unique_def fk_valid_iff s'_def pv_def
    by auto
  with r eq fp fv pv_def show ?thesis by blast
qed

lemma add_permission_view_menu_ext:
  assumes wf: "wf_store s" and d: "p \<in> set DAG_PERMS"
  shows "ext s (add_permission_view_menu s p v)"
proof (cases "p \<noteq> [] \<and> v \<noteq> [] \<and> find_permission_view_menu s p v = None")
  case False
  then have "add_permission_view_menu s p v = s"
    by (auto simp: add_permission_view_menu_def split: option.splits)
  with wf show ?thesis by (simp add: ext_refl)
next
  case True
  then have T: "p \<noteq> []" "v \<noteq> []" "find_permission_view_menu s p v = None" by simp_all
  from add_permission_view_menu_new [OF wf T] obtain perm vm ps vs pv where
    r: "add_permission_view_menu s p v =
           s\<lparr>ab_view_menu := ab_view_menu s @ vs, ab_permission := ab_permission s @ ps,
             ab_permission_view := ab_permission_view s @ [pv]\<rparr>"
    and pv: "pv = \<lparr>pv_id = next_id (map pv_id (ab_permission_view s)),
               permission_id = Some (p_id perm), view_menu_id = Some (vm_id vm)\<rparr>"
    and f: "find_permission (add_permission_view_menu s p v) p = Some perm"
       "find_view_menu (add_permission_view_menu s p v) v = Some vm"
    and w: "wf_store (add_permission_view_menu s p v)"
    by blast
  let ?s' = "add_permission_view_menu s p v"
  have n: "pv_names ?s' pv = Some (p, v)"
    using pv_names_of_rows [OF w, of perm vm pv] find_permission_mem [OF f(1)]
      find_view_menu_mem [OF f(2)] pv by simp
  have "wext s ?s'"
    unfolding wext_def using wf w n d by (simp add: r)
  then show ?thesis unfolding ext_def by (simp add: r)
qed

lemma merge_perm_ext:
  "wf_store s \<Longrightarrow> p \<in> set DAG_PERMS \<Longrightarrow> ext s (merge_perm s p v)"
  by (simp add: merge_perm_def Let_def add_permission_view_menu_ext ext_refl)

lemma merge_pv_ext:
  "wf_store s \<Longrightarrow> p \<in> set DAG_PERMS \<Longrightarrow> ext s (merge_pv all_pvs s p v)"
  by (simp add: merge_pv_def merge_perm_ext ext_refl)

lemma ext_wf: "ext s s' \<Longrightarrow> wf_store s'"
  by (simp add: ext_def wext_def)

lemma set_role_permissions_frame [simp]:
  "ab_permission (set_role_permissions s r new) = ab_permission s"
  "ab_view_menu (set_role_permissions s r new) = ab_view_menu s"
  "ab_permission_view (set_role_permissions s r new) = ab_permission_view s"
  "ab_role (set_role_permissions s r new) = ab_role s"
  "dag_table (set_role_permissions s r new) = dag_table s"
  by (simp_all add: set_role_permissions_def Let_def)

lemma set_role_permissions_grow:
  assumes "set (role_permissions s r) \<subseteq> set new"
  shows "ab_permission_view_role (set_role_permissions s r new) =
           ab_permission_view_role s @
           map (\<lambda>pv. \<lparr>permission_view_id = pv_id pv, role_id = r_id r\<rparr>)
               (filter (\<lambda>pv. pv \<notin> set (role_permissions s r)) (remdups new))"
proof -
  have e: "{x \<in> set (role_permissions s r). x \<notin> set new} = {}"
    using assms by auto
  show ?thesis by (simp add: set_role_permissions_def Let_def e)
qed

lemma role_permissions_subset_pvs: "set (role_permissions s r) \<subseteq> set (ab_permission_view s)"
  by (auto simp: role_permissions_def)

lemma role_permissions_mem:
  "pv \<in> set (role_permissions s r) \<longleftrightarrow>
     pv \<in> set (ab_permission_view s) \<and>
     \<lparr>permission_view_id = pv_id pv, role_id = r_id r\<rparr> \<in> set (ab_permission_view_role s)"
  by (auto simp: role_permissions_def)

lemma pv_id_inj:
  "distinct (map pv_id (ab_permission_view s)) \<Longrightarrow> x \<in> set (ab_permission_view s)
   \<Longrightarrow> y \<in> set (ab_permission_view s) \<Longrightarrow> pv_id x = pv_id y \<Longrightarrow> x = y"
  by (meson distinct_map inj_onD)

lemma set_role_permissions_get:
  assumes d: "distinct (map pv_id (ab_permission_view s))"
    and sub: "set new \<subseteq> set (ab_permission_view s)"
  shows "set (role_permissions (set_role_permissions s r new) r) = set new"
proof (intro set_eqI iffI)
  fix pv :: permission_view
  let ?s' = "set_role_permissions s r new"
  let ?row = "\<lparr>permission_view_id = pv_id pv, role_id = r_id r\<rparr>"
  assume "pv \<in> set (role_permissions ?s' r)"
  then have pv: "pv \<in> set (ab_permission_view s)" and row: "?row \<in> set (ab_permission_view_role ?s')"
    by (simp_all add: role_permissions_mem)
  show "pv \<in> set new"
  proof (rule ccontr)
    assume n: "pv \<notin> set new"
    from row consider
      (old) "?row \<in> set (ab_permission_view_role s)"
         "pv_id pv \<notin> pv_id ` set (filter (\<lambda>pv. pv \<notin> set new) (role_permissions s r))"
    | (new) x where "x \<in> set new" "pv_id x = pv_id pv"
      by (auto simp: set_role_permissions_def Let_def)
    then show False
    proof cases
      case old
      from old(1) pv have "pv \<in> set (role_permissions s r)" by (simp add: role_permissions_mem)
      with n old(2) show False by auto
    next
      case new
      with pv_id_inj [OF d _ pv, of x] sub n show False by auto
    qed
  qed
next
  fix pv :: permission_view
  let ?s' = "set_role_permissions s r new"
  let ?row = "\<lparr>permission_view_id = pv_id pv, role_id = r_id r\<rparr>"
  assume n: "pv \<in> set new"
  with sub have pv: "pv \<in> set (ab_permission_view s)" by blast
  have "?row \<in> set (ab_permission_view_role ?s')"
  proof (cases "pv \<in> set (role_permissions s r)")
    case False
    with n show ?thesis by (auto simp: set_role_permissions_def Let_def)
  next
    case True
    then have r: "?row \<in> set (ab_permission_view_role s)" by (simp add: role_permissions_mem)
    have "pv_id pv \<notin> pv_id ` set (filter (\<lambda>pv. pv \<notin> set new) (role_permissions s r))"
    proof
      assume "pv_id pv \<in> pv_id ` set (filter (\<lambda>pv. pv \<notin> set new) (role_permissions s r))"
      then obtain x where x: "x \<in> set (role_permissions s r)" "x \<notin> set new" "pv_id x = pv_id pv"
        by auto
      with pv_id_inj [OF d _ pv, of x] role_permissions_subset_pvs [of s r] n show False by auto
    qed
    with r show ?thesis by (auto simp: set_role_permissions_def Let_def)
  qed
  with pv show "pv \<in> set (role_permissions ?s' r)" by (simp add: role_permissions_mem)
qed

lemma set_role_permissions_other:
  "r_id r' \<noteq> r_id r \<Longrightarrow> role_permissions (set_role_permissions s r new) r' = role_permissions s r'"
  unfolding role_permissions_def
  by (rule filter_cong) (auto simp: set_role_permissions_def Let_def)


lemma init_role_eq:
  "init_role s n vms perms =
     (let (s1, role) = (case find_role s n of Some r \<Rightarrow> (s, r) | None \<Rightarrow> add_role s n)
      in if role_permissions s1 role = [] then set_role_permissions s1 role (role_seed s1 vms perms)
         else s1)"
proof -
  have "valid_pvms (fst (add_role s n)) = valid_pvms s"
    by (simp add: add_role_def valid_pvms_def pv_permission_def pv_view_menu_def Let_def
          split: option.splits)
  then show ?thesis
    by (auto simp: init_role_def role_seed_def Let_def split: option.splits prod.splits)
qed

lemma valid_pvms_mem:
  "pv \<in> set (valid_pvms s) \<longleftrightarrow>
     pv \<in> set (ab_permission_view s) \<and> pv_permission s pv \<noteq> None \<and> pv_view_menu s pv \<noteq> None"
  by (auto simp: valid_pvms_def)

lemma valid_pvms_nonfaulty: "pv \<in> set (valid_pvms s) \<Longrightarrow> \<not> faulty pv"
  by (auto simp: valid_pvms_def faulty_def pv_permission_def pv_view_menu_def split: option.splits)

lemma role_seed_valid: "set (role_seed s vms perms) \<subseteq> set (valid_pvms s)"
  by (auto simp: role_seed_def)

lemma valid_pvms_subset: "set (valid_pvms s) \<subseteq> set (ab_permission_view s)"
  by (auto simp: valid_pvms_def)

lemma set_role_permissions_ext:
  assumes wf: "wf_store s" and r: "r \<in> set (ab_role s)"
    and old: "set (role_permissions s r) \<subseteq> set new"
    and sub: "set new \<subseteq> set (ab_permission_view s)"
    and nf: "\<forall>pv \<in> set new - set (role_permissions s r). \<not> faulty pv"
  shows "ext s (set_role_permissions s r new)"
proof -
  let ?s' = "set_role_permissions s r new"
  note g = set_role_permissions_grow [OF old]
  have wf': "wf_store ?s'"
    using wf r unfolding wf_store_def pk_unique_def names_unique_def fk_valid_iff
    by (auto simp: g)
  have w: "wext s ?s'"
    unfolding wext_def using wf wf' by (simp add: g)
  have "\<not> faulty pv" if a: "a \<in> set (ab_permission_view_role ?s')"
      "a \<notin> set (ab_permission_view_role s)" "pv \<in> set (ab_permission_view ?s')"
      "pv_id pv = permission_view_id a" for a pv
  proof -
    from a(1,2) obtain x where x: "x \<in> set new" "x \<notin> set (role_permissions s r)"
      "permission_view_id a = pv_id x"
      by (auto simp: g)
    from wf have d: "distinct (map pv_id (ab_permission_view s))"
      by (simp add: wf_store_def pk_unique_def)
    from a(3) have "pv \<in> set (ab_permission_view s)" by simp
    with pv_id_inj [OF d _ this, of x] x sub a(4) have "pv = x" by auto
    with x nf show ?thesis by blast
  qed
  with w show ?thesis unfolding ext_def by blast
qed

lemma add_role_ext:
  assumes "wf_store s" "add_role s n = (s1, r)"
  shows "ext s s1"
proof -
  note A = add_role_props [OF assms]
  have "wext s s1" unfolding wext_def using assms(1) A by simp
  then show ?thesis unfolding ext_def using A by simp
qed

lemma init_role_ext:
  assumes wf: "wf_store s"
  shows "ext s (init_role s n vms perms)"
proof -
  obtain s1 r where 1: "(case find_role s n of Some r \<Rightarrow> (s, r) | None \<Rightarrow> add_role s n) = (s1, r)"
    by (cases "case find_role s n of Some r \<Rightarrow> (s, r) | None \<Rightarrow> add_role s n")
  have e1: "ext s s1" and rm: "r \<in> set (ab_role s1)"
  proof -
    show "ext s s1"
    proof (cases "find_role s n")
      case None
      with 1 add_role_ext [OF wf] show ?thesis by simp
    next
      case (Some a)
      with 1 wf show ?thesis by (simp add: ext_refl)
    qed
    show "r \<in> set (ab_role s1)"
    proof (cases "find_role s n")
      case None
      with 1 add_role_props(2) [OF wf, of n s1 r] find_role_mem show ?thesis by auto
    next
      case (Some a)
      with 1 find_role_mem show ?thesis by auto
    qed
  qed
  have wf1: "wf_store s1" using e1 by (rule ext_wf)
  show ?thesis
  proof (cases "role_permissions s1 r = []")
    case False
    with 1 e1 show ?thesis by (simp add: init_role_eq)
  next
    case True
    have "ext s1 (set_role_permissions s1 r (role_seed s1 vms perms))"
      using set_role_permissions_ext [OF wf1 rm, of "role_seed s1 vms perms"] True
        role_seed_valid [of s1 vms perms] valid_pvms_subset [of s1] valid_pvms_nonfaulty [of _ s1]
      by auto
    with e1 ext_trans 1 True show ?thesis by (auto simp: init_role_eq)
  qed
qed

lemma fold_ext:
  assumes "\<And>x s. x \<in> set xs \<Longrightarrow> wf_store s \<Longrightarrow> ext s (f x s)" "wf_store s"
  shows "ext s (fold f xs s)"
  using assms
proof (induction xs arbitrary: s)
  case Nil then show ?case by (simp add: ext_refl)
next
  case (Cons x xs)
  from Cons.prems have e: "ext s (f x s)" by simp
  from Cons.prems have "\<And>y s. y \<in> set xs \<Longrightarrow> wf_store s \<Longrightarrow> ext s (f y s)" by simp
  from Cons.IH [OF this ext_wf [OF e]] have "ext (f x s) (fold f xs (f x s))" by simp
  with e ext_trans show ?case by auto
qed

lemma init_roles_ext: "wf_store s \<Longrightarrow> ext s (init_roles s)"
  unfolding init_roles_def by (rule fold_ext) (simp_all add: init_role_ext)

lemma DAG_PERMS_mem: "p \<in> set DAG_PERMS \<longleftrightarrow> p = ''can_dag_read'' \<or> p = ''can_dag_edit''"
  by (auto simp: DAG_PERMS_def)

lemma create_perm_vm_for_all_dag_ext: "wf_store s \<Longrightarrow> ext s (create_perm_vm_for_all_dag s)"
  unfolding create_perm_vm_for_all_dag_def
  by (rule fold_ext, rule fold_ext) (simp_all add: merge_perm_ext)

lemma role_seed_set:
  "set (role_seed s vms perms) =
     {pv \<in> set (valid_pvms s). \<exists>p v. pv_names s pv = Some (p, v) \<and> p \<in> set perms \<and> v \<in> set vms}"
  by (auto simp: role_seed_def pv_names_def split: option.splits)

lemma ext_role_prefix: "ext s s' \<Longrightarrow> \<exists>xs. ab_role s' = ab_role s @ xs"
  by (simp add: ext_def wext_def)

lemma ext_role_mem: "ext s s' \<Longrightarrow> r \<in> set (ab_role s) \<Longrightarrow> r \<in> set (ab_role s')"
  using ext_role_prefix by fastforce

lemma r_id_inj:
  "wf_store s \<Longrightarrow> x \<in> set (ab_role s) \<Longrightarrow> y \<in> set (ab_role s) \<Longrightarrow> r_id x = r_id y \<Longrightarrow> x = y"
  unfolding wf_store_def pk_unique_def by (meson distinct_map inj_onD)

lemma role_permissions_cong:
  "ab_permission_view s' = ab_permission_view s \<Longrightarrow>
   ab_permission_view_role s' = ab_permission_view_role s \<Longrightarrow>
   role_permissions s' r = role_permissions s r"
  by (simp add: role_permissions_def)

lemma init_role_other:
  assumes wf: "wf_store s" and r: "r \<in> set (ab_role s)" and ne: "role_permissions s r \<noteq> []"
  shows "role_permissions (init_role s n vms perms) r = role_permissions s r"
proof (cases "find_role s n")
  case (Some r')
  show ?thesis
  proof (cases "r' = r")
    case True
    with Some ne show ?thesis by (simp add: init_role_eq)
  next
    case False
    with r_id_inj [OF wf _ r, of r'] find_role_mem [OF Some] have "r_id r \<noteq> r_id r'" by auto
    with Some show ?thesis by (simp add: init_role_eq set_role_permissions_other)
  qed
next
  case None
  obtain s1 r' where a: "add_role s n = (s1, r')" by (cases "add_role s n")
  note A = add_role_props [OF wf a]
  from None a have r': "r_id r' = next_id (map r_id (ab_role s))"
    by (auto simp: add_role_def Let_def)
  with next_id_gt [of "r_id r" "map r_id (ab_role s)"] r have "r_id r \<noteq> r_id r'" by auto
  moreover have "role_permissions s1 r = role_permissions s r"
    by (rule role_permissions_cong) (simp_all add: A)
  ultimately show ?thesis using None a
    by (simp add: init_role_eq set_role_permissions_other)
qed

lemma init_role_noop:
  "find_role s name = Some r \<Longrightarrow> role_permissions s r \<noteq> []
   \<Longrightarrow> init_role s name role_vms role_perms = s"
  by (simp add: init_role_eq)

lemma init_roles_other:
  assumes wf: "wf_store s" and r: "r \<in> set (ab_role s)" and ne: "role_permissions s r \<noteq> []"
  shows "role_permissions (init_roles s) r = role_permissions s r"
proof -
  have step: "wf_store (init_role s n vms perms) \<and> r \<in> set (ab_role (init_role s n vms perms))
      \<and> role_permissions (init_role s n vms perms) r = role_permissions s r"
    if "wf_store s" "r \<in> set (ab_role s)" "role_permissions s r \<noteq> []" for s n vms perms
  proof -
    from init_role_ext [OF that(1)] have e: "ext s (init_role s n vms perms)" .
    from ext_wf [OF e] ext_role_mem [OF e that(2)] init_role_other [OF that]
    show ?thesis by blast
  qed
  have "wf_store (fold (\<lambda>config s. init_role s (cfg_role config) (cfg_vms config) (cfg_perms config)) cs s)
      \<and> r \<in> set (ab_role (fold (\<lambda>config s. init_role s (cfg_role config) (cfg_vms config) (cfg_perms config)) cs s))
      \<and> role_permissions (fold (\<lambda>config s. init_role s (cfg_role config) (cfg_vms config) (cfg_perms config)) cs s) r
          = role_permissions s r" for cs :: "role_config list"
    using wf r ne
  proof (induction cs arbitrary: s)
    case Nil then show ?case by simp
  next
    case (Cons c cs)
    let ?s1 = "init_role s (cfg_role c) (cfg_vms c) (cfg_perms c)"
    from step [OF Cons.prems, of "cfg_role c" "cfg_vms c" "cfg_perms c"]
    have 1: "wf_store ?s1" "r \<in> set (ab_role ?s1)" "role_permissions ?s1 r = role_permissions s r"
      by blast+
    from 1(3) Cons.prems(3) have "role_permissions ?s1 r \<noteq> []" by simp
    from Cons.IH [OF 1(1,2) this] 1(3) show ?case by simp
  qed
  then show ?thesis unfolding init_roles_def by blast
qed

lemma role_seed_cong:
  "ab_permission s' = ab_permission s \<Longrightarrow> ab_view_menu s' = ab_view_menu s \<Longrightarrow>
   ab_permission_view s' = ab_permission_view s \<Longrightarrow> role_seed s' vms perms = role_seed s vms perms"
proof -
  assume a: "ab_permission s' = ab_permission s" "ab_view_menu s' = ab_view_menu s"
    "ab_permission_view s' = ab_permission_view s"
  have 1: "pv_permission s' = pv_permission s"
    by (intro ext) (simp only: pv_permission_def a)
  have 2: "pv_view_menu s' = pv_view_menu s"
    by (intro ext) (simp only: pv_view_menu_def a)
  show ?thesis by (simp only: role_seed_def valid_pvms_def 1 2 a)
qed

lemma wf_pv_distinct: "wf_store s \<Longrightarrow> distinct (map pv_id (ab_permission_view s))"
  by (simp add: wf_store_def pk_unique_def)

lemma init_role_seed_existing:
  assumes wf: "wf_store s" and f: "find_role s name = Some r" and e: "role_permissions s r = []"
  shows "init_role s name vms perms = set_role_permissions s r (role_seed s vms perms)"
    and "set (role_permissions (init_role s name vms perms) r) = set (role_seed s vms perms)"
proof -
  show 1: "init_role s name vms perms = set_role_permissions s r (role_seed s vms perms)"
    using f e by (simp add: init_role_eq)
  have "set (role_seed s vms perms) \<subseteq> set (ab_permission_view s)"
    using role_seed_valid valid_pvms_subset by blast
  from set_role_permissions_get [OF wf_pv_distinct [OF wf] this]
  show "set (role_permissions (init_role s name vms perms) r) = set (role_seed s vms perms)"
    unfolding 1 .
qed

lemma init_role_seed_new:
  assumes wf: "wf_store s" and f: "find_role s name = None"
  shows "\<exists>r. ab_role (init_role s name vms perms) = ab_role s @ [r] \<and> r_name r = name \<and>
             find_role (init_role s name vms perms) name = Some r \<and>
             set (role_permissions (init_role s name vms perms) r) = set (role_seed s vms perms)"
proof -
  define r where "r = \<lparr>r_id = next_id (map r_id (ab_role s)), r_name = name\<rparr>"
  define s1 where "s1 = s\<lparr>ab_role := ab_role s @ [r]\<rparr>"
  have a: "add_role s name = (s1, r)"
    using f by (simp add: add_role_def Let_def r_def s1_def)
  note A = add_role_props [OF wf a]
  have e: "role_permissions s1 r = []"
  proof -
    have "\<lparr>permission_view_id = pv_id pv, role_id = r_id r\<rparr> \<notin> set (ab_permission_view_role s)"
      for pv :: permission_view
    proof
      assume "\<lparr>permission_view_id = pv_id pv, role_id = r_id r\<rparr> \<in> set (ab_permission_view_role s)"
      with wf have "r_id r \<in> r_id ` set (ab_role s)"
        unfolding wf_store_def fk_valid_iff by force
      with next_id_notin [of "map r_id (ab_role s)"] show False by (simp add: r_def)
    qed
    then show ?thesis by (simp add: role_permissions_def s1_def)
  qed
  have sd: "role_seed s1 vms perms = role_seed s vms perms"
    by (rule role_seed_cong) (simp_all add: s1_def)
  have i: "init_role s name vms perms = set_role_permissions s1 r (role_seed s vms perms)"
    using f a e sd by (simp add: init_role_eq)
  have sub: "set (role_seed s vms perms) \<subseteq> set (ab_permission_view s1)"
    using role_seed_valid [of s vms perms] valid_pvms_subset [of s] by (auto simp: s1_def)
  have g: "set (role_permissions (init_role s name vms perms) r) = set (role_seed s vms perms)"
    unfolding i by (rule set_role_permissions_get [OF wf_pv_distinct [OF A(1)] sub])
  have fr: "find_role (init_role s name vms perms) name = Some r"
    using A(2) by (simp add: i find_role_def)
  have "ab_role (init_role s name vms perms) = ab_role s @ [r]"
    by (simp add: i s1_def)
  with g fr show ?thesis by (auto simp: r_def)
qed




lemma set_map_filter: "set (List.map_filter f xs) = {y. \<exists>x \<in> set xs. f x = Some y}"
  by (induction xs) (auto simp: List.map_filter_simps split: option.splits)





lemma create_dag_pvs_ext: "wf_store s \<Longrightarrow> ext s (create_dag_pvs s)"
  unfolding create_dag_pvs_def Let_def
proof -
  assume wf: "wf_store s"
  let ?all = "List.map_filter (pv_names s) (ab_permission_view s)"
  let ?s1 = "fold (\<lambda>dag s. fold (\<lambda>perm s. merge_pv ?all s perm dag) DAG_PERMS s) DAG_VMS s"
  have 1: "ext s ?s1"
    by (rule fold_ext, rule fold_ext) (simp_all add: merge_pv_ext wf)
  have 2: "ext ?s1 (fold (\<lambda>dag s. fold (\<lambda>perm s. merge_pv ?all s perm (dag_id dag)) DAG_PERMS s) ds ?s1)"
    for ds
    by (rule fold_ext, rule fold_ext) (simp_all add: merge_pv_ext ext_wf [OF 1])
  from 1 2 show "ext s (fold (\<lambda>dag s. fold (\<lambda>perm s. merge_pv ?all s perm (dag_id dag)) DAG_PERMS s)
        (all_dags_models ?s1) ?s1)"
    by (rule ext_trans)
qed

lemma ext_wext: "ext s s' \<Longrightarrow> wext s s'"
  by (simp add: ext_def)

lemma wext_wf: "wext s s' \<Longrightarrow> wf_store s'"
  by (simp add: wext_def)

lemma wext_find_role: "wext s s' \<Longrightarrow> find_role s n = Some r \<Longrightarrow> find_role s' n = Some r"
  unfolding wext_def find_role_def by (auto simp: find_append_Some)

lemma wext_find_permission:
  "wext s s' \<Longrightarrow> find_permission s n = Some r \<Longrightarrow> find_permission s' n = Some r"
  unfolding wext_def find_permission_def by (auto simp: find_append_Some)

lemma wext_find_view_menu:
  "wext s s' \<Longrightarrow> find_view_menu s n = Some r \<Longrightarrow> find_view_menu s' n = Some r"
  unfolding wext_def find_view_menu_def by (auto simp: find_append_Some)

lemma wext_query_pv_first:
  "wext s s' \<Longrightarrow> query_pv_first s p v = Some pv \<Longrightarrow> query_pv_first s' p v = Some pv"
  unfolding wext_def query_pv_first_def by (auto simp: find_append_Some)

lemma find_permission_view_menu_Some:
  "find_permission_view_menu s p v = Some pv \<longleftrightarrow>
     (\<exists>perm vm. find_permission s p = Some perm \<and> find_view_menu s v = Some vm \<and>
                query_pv_first s perm vm = Some pv)"
  by (auto simp: find_permission_view_menu_def split: option.splits)

lemma wext_find_permission_view_menu:
  "wext s s' \<Longrightarrow> find_permission_view_menu s p v = Some pv
   \<Longrightarrow> find_permission_view_menu s' p v = Some pv"
  unfolding find_permission_view_menu_Some
  using wext_find_permission wext_find_view_menu wext_query_pv_first by blast

lemma merge_perm_eq:
  "merge_perm s p v =
     (if find_permission_view_menu s p v = None \<and> p \<noteq> [] \<and> v \<noteq> []
      then add_permission_view_menu s p v else s)"
  by (auto simp: merge_perm_def find_permission_view_menu_def Let_def split: option.splits)


lemma add_permission_view_menu_found:
  assumes wf: "wf_store s" and ne: "p \<noteq> []" "v \<noteq> []"
  shows "find_permission_view_menu (add_permission_view_menu s p v) p v \<noteq> None"
proof (cases "find_permission_view_menu s p v")
  case (Some a)
  then show ?thesis by (simp add: add_permission_view_menu_def ne)
next
  case None
  from add_permission_view_menu_new [OF wf ne None] obtain perm vm ps vs pv where
    r: "add_permission_view_menu s p v =
           s\<lparr>ab_view_menu := ab_view_menu s @ vs, ab_permission := ab_permission s @ ps,
             ab_permission_view := ab_permission_view s @ [pv]\<rparr>"
    and pv: "pv = \<lparr>pv_id = next_id (map pv_id (ab_permission_view s)),
               permission_id = Some (p_id perm), view_menu_id = Some (vm_id vm)\<rparr>"
    and f: "find_permission (add_permission_view_menu s p v) p = Some perm"
       "find_view_menu (add_permission_view_menu s p v) v = Some vm"
    by blast
  have "pv \<in> set (ab_permission_view (add_permission_view_menu s p v))"
    "permission_id pv = Some (p_id perm) \<and> view_menu_id pv = Some (vm_id vm)"
    by (simp_all add: r pv)
  then have "query_pv_first (add_permission_view_menu s p v) perm vm \<noteq> None"
    unfolding query_pv_first_def find_None_iff by blast
  with f show ?thesis by (auto simp: find_permission_view_menu_def)
qed

lemma merge_perm_found:
  "wf_store s \<Longrightarrow> p \<noteq> [] \<Longrightarrow> v \<noteq> [] \<Longrightarrow> find_permission_view_menu (merge_perm s p v) p v \<noteq> None"
  using add_permission_view_menu_found [of s p v] by (auto simp: merge_perm_eq)

lemma wext_found:
  "wext s s' \<Longrightarrow> find_permission_view_menu s p v \<noteq> None
   \<Longrightarrow> find_permission_view_menu s' p v \<noteq> None"
  using wext_find_permission_view_menu by fastforce

lemma create_perm_vm_for_all_dag_eq:
  "create_perm_vm_for_all_dag s =
     merge_perm (merge_perm s ''can_dag_read'' ''all_dags'') ''can_dag_edit'' ''all_dags''"
  by (simp add: create_perm_vm_for_all_dag_def DAG_VMS_def DAG_PERMS_def)

lemma create_perm_vm_for_all_dag_found:
  assumes wf: "wf_store s" and p: "p \<in> set DAG_PERMS"
  shows "find_permission_view_menu (create_perm_vm_for_all_dag s) p ''all_dags'' \<noteq> None"
proof -
  let ?s1 = "merge_perm s ''can_dag_read'' ''all_dags''"
  have e1: "ext s ?s1" by (rule merge_perm_ext [OF wf]) (simp add: DAG_PERMS_def)
  have e2: "ext ?s1 (merge_perm ?s1 ''can_dag_edit'' ''all_dags'')"
    by (rule merge_perm_ext [OF ext_wf [OF e1]]) (simp add: DAG_PERMS_def)
  have 1: "find_permission_view_menu ?s1 ''can_dag_read'' ''all_dags'' \<noteq> None"
    by (rule merge_perm_found [OF wf]) simp_all
  have 2: "find_permission_view_menu (merge_perm ?s1 ''can_dag_edit'' ''all_dags'')
             ''can_dag_edit'' ''all_dags'' \<noteq> None"
    by (rule merge_perm_found [OF ext_wf [OF e1]]) simp_all
  from wext_found [OF ext_wext [OF e2] 1] 2 p show ?thesis
    by (auto simp: create_perm_vm_for_all_dag_eq DAG_PERMS_def)
qed

lemma init_role_exists: "wf_store s \<Longrightarrow> find_role (init_role s n vms perms) n \<noteq> None"
proof (cases "find_role s n")
  case None
  assume "wf_store s"
  from init_role_seed_new [OF this None, of vms perms] show ?thesis by auto
next
  case (Some r)
  assume wf: "wf_store s"
  from wext_find_role [OF ext_wext [OF init_role_ext [OF wf]] Some] show ?thesis by simp
qed

lemma init_roles_eq:
  "init_roles s =
     init_role (init_role (init_role s ''Viewer'' (VIEWER_VMS @ DAG_VMS) VIEWER_PERMS)
                  ''User'' (VIEWER_VMS @ DAG_VMS @ USER_VMS) (VIEWER_PERMS @ USER_PERMS @ DAG_PERMS))
       ''Op'' (VIEWER_VMS @ DAG_VMS @ USER_VMS @ OP_VMS) (VIEWER_PERMS @ USER_PERMS @ OP_PERMS @ DAG_PERMS)"
  by (simp add: init_roles_def ROLE_CONFIGS_def)

lemma init_roles_User_exists:
  assumes wf: "wf_store s" shows "find_role (init_roles s) ''User'' \<noteq> None"
proof -
  let ?s1 = "init_role s ''Viewer'' (VIEWER_VMS @ DAG_VMS) VIEWER_PERMS"
  let ?s2 = "init_role ?s1 ''User'' (VIEWER_VMS @ DAG_VMS @ USER_VMS) (VIEWER_PERMS @ USER_PERMS @ DAG_PERMS)"
  have w1: "wf_store ?s1" using init_role_ext [OF wf] ext_wf by blast
  have w2: "wf_store ?s2" using init_role_ext [OF w1] ext_wf by blast
  from init_role_exists [OF w1] obtain u where "find_role ?s2 ''User'' = Some u" by blast
  from wext_find_role [OF ext_wext [OF init_role_ext [OF w2]] this]
  show ?thesis by (simp add: init_roles_eq)
qed

lemma grant_dag_roles_Inr:
  "find_role s ''User'' = Some u \<Longrightarrow> find_view_menu s ''all_dags'' = Some dv \<Longrightarrow>
   grant_dag_roles s = Inr (s\<lparr>ab_permission_view_role := ab_permission_view_role s @ grant_rows s u dv\<rparr>)"
  by (simp add: grant_dag_roles_def grant_rows_def Let_def)

lemma assoc_row_eq:
  "(a :: assoc_permissionview_role) = \<lparr>permission_view_id = permission_view_id a, role_id = role_id a\<rparr>"
  by (cases a) simp

lemma grant_rows_mem:
  "a \<in> set (grant_rows s u dv) \<longleftrightarrow>
     (\<exists>role \<in> set (ab_role s). r_name role \<notin> set EXISTING_ROLES \<and> role_id a = r_id role) \<and>
     permission_view_id a \<in> permission_view_id ` set (all_perm_view_by_user s u dv) \<and>
     a \<notin> set (ab_permission_view_role s)"
proof -
  have m: "i \<in> set (missing_perm_views s xs role) \<longleftrightarrow>
      i \<in> set xs \<and> \<lparr>permission_view_id = i, role_id = r_id role\<rparr> \<notin> set (ab_permission_view_role s)"
    for i xs role
  proof -
    have "(i \<in> permission_view_id ` {a \<in> set (ab_permission_view_role s). role_id a = r_id role})
        \<longleftrightarrow> \<lparr>permission_view_id = i, role_id = r_id role\<rparr> \<in> set (ab_permission_view_role s)"
    proof
      assume "i \<in> permission_view_id ` {a \<in> set (ab_permission_view_role s). role_id a = r_id role}"
      then obtain a where a: "a \<in> set (ab_permission_view_role s)" "role_id a = r_id role"
        "permission_view_id a = i" by auto
      then have "a = \<lparr>permission_view_id = i, role_id = r_id role\<rparr>"
        using assoc_row_eq [of a] by simp
      with a show "\<lparr>permission_view_id = i, role_id = r_id role\<rparr> \<in> set (ab_permission_view_role s)"
        by simp
    next
      assume "\<lparr>permission_view_id = i, role_id = r_id role\<rparr> \<in> set (ab_permission_view_role s)"
      then show "i \<in> permission_view_id ` {a \<in> set (ab_permission_view_role s). role_id a = r_id role}"
        by force
    qed
    then show ?thesis by (simp add: missing_perm_views_def Let_def)
  qed
  show ?thesis
    unfolding grant_rows_def get_all_roles_def
    by (cases a) (auto simp: m)
qed

lemma grant_rows_wext:
  assumes wf: "wf_store s"
  shows "wext s (s\<lparr>ab_permission_view_role := ab_permission_view_role s @ grant_rows s u dv\<rparr>)"
proof -
  have "wf_store (s\<lparr>ab_permission_view_role := ab_permission_view_role s @ grant_rows s u dv\<rparr>)"
    using wf unfolding wf_store_def pk_unique_def names_unique_def fk_valid_iff
    by (auto simp: grant_rows_mem)
  with wf show ?thesis by (simp add: wext_def)
qed

lemma update_admin_perm_view_Inr:
  "find_role s ''Admin'' = Some admin \<Longrightarrow>
   update_admin_perm_view s =
     Inr (set_role_permissions s admin (remdups (role_permissions s admin @ valid_pvms s)))"
  by (simp add: update_admin_perm_view_def Let_def)

lemma update_admin_perm_view_Inl:
  "find_role s ''Admin'' = None \<Longrightarrow> update_admin_perm_view s = Inl (AttributeError, s)"
  by (simp add: update_admin_perm_view_def Let_def)

lemma update_admin_ext:
  assumes wf: "wf_store s" and f: "find_role s ''Admin'' = Some admin"
  shows "ext s (set_role_permissions s admin (remdups (role_permissions s admin @ valid_pvms s)))"
  using set_role_permissions_ext [OF wf, of admin "remdups (role_permissions s admin @ valid_pvms s)"]
    find_role_mem [OF f] role_permissions_subset_pvs [of s admin] valid_pvms_subset [of s]
    valid_pvms_nonfaulty [of _ s]
  by auto

lemma update_admin_get:
  assumes wf: "wf_store s"
  shows "set (role_permissions
            (set_role_permissions s admin (remdups (role_permissions s admin @ valid_pvms s))) admin)
         = set (role_permissions s admin) \<union> set (valid_pvms s)"
  using set_role_permissions_get [OF wf_pv_distinct [OF wf],
      of "remdups (role_permissions s admin @ valid_pvms s)" admin]
    role_permissions_subset_pvs [of s admin] valid_pvms_subset [of s]
  by auto

lemma clean_perms_wf: "wf_store s \<Longrightarrow> wf_store (fst (clean_perms s))"
  unfolding wf_store_def pk_unique_def names_unique_def fk_valid_iff
  by (auto simp: clean_perms_fst distinct_map_filter)

lemma before_grant_ext: assumes wf: "wf_store s" shows "ext s (before_grant s)"
proof -
  note 1 = create_perm_vm_for_all_dag_ext [OF wf]
  note 2 = init_roles_ext [OF ext_wf [OF 1]]
  note 3 = create_dag_pvs_ext [OF ext_wf [OF 2]]
  from ext_trans [OF ext_trans [OF 1 2] 3] show ?thesis by (simp add: before_grant_def)
qed

lemma before_grant_user:
  assumes wf: "wf_store s" shows "\<exists>u. find_role (before_grant s) ''User'' = Some u"
proof -
  let ?sa = "create_perm_vm_for_all_dag s"
  note 1 = create_perm_vm_for_all_dag_ext [OF wf]
  note 2 = init_roles_ext [OF ext_wf [OF 1]]
  note 3 = create_dag_pvs_ext [OF ext_wf [OF 2]]
  from init_roles_User_exists [OF ext_wf [OF 1]] obtain u where
    "find_role (init_roles ?sa) ''User'' = Some u" by blast
  from wext_find_role [OF ext_wext [OF 3] this] show ?thesis by (auto simp: before_grant_def)
qed

lemma before_grant_found:
  assumes wf: "wf_store s" and p: "p \<in> set DAG_PERMS"
  shows "find_permission_view_menu (before_grant s) p ''all_dags'' \<noteq> None"
proof -
  note 1 = create_perm_vm_for_all_dag_ext [OF wf]
  note 2 = init_roles_ext [OF ext_wf [OF 1]]
  note 3 = create_dag_pvs_ext [OF ext_wf [OF 2]]
  from wext_found [OF ext_wext [OF ext_trans [OF 2 3]] create_perm_vm_for_all_dag_found [OF wf p]]
  show ?thesis by (simp add: before_grant_def)
qed

lemma before_grant_dag_vm:
  assumes wf: "wf_store s" shows "\<exists>dv. find_view_menu (before_grant s) ''all_dags'' = Some dv"
  using before_grant_found [OF wf, of "''can_dag_read''"]
  by (auto simp: find_permission_view_menu_def DAG_PERMS_def split: option.splits)

lemma sync_roles_eq:
  assumes "find_role (before_grant s) ''User'' = Some u"
    "find_view_menu (before_grant s) ''all_dags'' = Some dv"
  shows "sync_roles s =
     (case update_admin_perm_view (after_grant s u dv) of
        Inl e \<Rightarrow> Inl e
      | Inr s4 \<Rightarrow> Inr (fst (clean_perms s4)))"
  using grant_dag_roles_Inr [OF assms]
  by (simp add: sync_roles_def create_custom_dag_permission_view_def Let_def
        before_grant_def [symmetric] after_grant_def)

lemma after_grant_wext:
  assumes wf: "wf_store s" shows "wext s (after_grant s u dv)"
  using wext_trans [OF ext_wext [OF before_grant_ext [OF wf]]
      grant_rows_wext [OF ext_wf [OF before_grant_ext [OF wf]], of u dv]]
  by (simp add: after_grant_def)

lemma nonfaulty_valid:
  assumes wf: "wf_store s" and pv: "pv \<in> set (ab_permission_view s)" and nf: "\<not> faulty pv"
  shows "pv \<in> set (valid_pvms s)"
proof -
  from nf obtain i j where ij: "permission_id pv = Some i" "view_menu_id pv = Some j"
    by (auto simp: faulty_def)
  with wf pv have "i \<in> p_id ` set (ab_permission s)" "j \<in> vm_id ` set (ab_view_menu s)"
    unfolding wf_store_def fk_valid_iff by blast+
  then have "find (\<lambda>p. p_id p = i) (ab_permission s) \<noteq> None"
    "find (\<lambda>v. vm_id v = j) (ab_view_menu s) \<noteq> None"
    unfolding find_None_iff by auto
  with pv ij show ?thesis by (simp add: valid_pvms_mem pv_permission_def pv_view_menu_def)
qed

lemma valid_pvms_eq_nonfaulty:
  "wf_store s \<Longrightarrow> set (valid_pvms s) = {pv \<in> set (ab_permission_view s). \<not> faulty pv}"
  using nonfaulty_valid valid_pvms_nonfaulty valid_pvms_subset by blast

lemma clean_perms_valid_pvms:
  "wf_store s \<Longrightarrow> set (valid_pvms (fst (clean_perms s))) = set (valid_pvms s)"
  using valid_pvms_eq_nonfaulty [of s] valid_pvms_eq_nonfaulty [OF clean_perms_wf, of s]
  by (auto simp: clean_perms_fst)

lemma clean_perms_role_permissions:
  "set (role_permissions (fst (clean_perms s)) r) = {pv \<in> set (role_permissions s r). \<not> faulty pv}"
  by (auto simp: role_permissions_def clean_perms_fst)

lemma wext_role_permissions:
  "wext s s' \<Longrightarrow> set (role_permissions s r) \<subseteq> set (role_permissions s' r)"
  unfolding wext_def role_permissions_def by auto

lemma sync_roles_admin:
  assumes wf: "wf_store s" and ad: "find_role s ''Admin'' = Some admin"
  shows "\<exists>s1. sync_roles s = Inr s1 \<and>
           set (role_permissions s1 admin) =
             {pv \<in> set (role_permissions s admin). \<not> faulty pv} \<union> set (valid_pvms s1)"
proof -
  from before_grant_user [OF wf] before_grant_dag_vm [OF wf] obtain u dv where
    u: "find_role (before_grant s) ''User'' = Some u"
    and dv: "find_view_menu (before_grant s) ''all_dags'' = Some dv" by blast
  let ?s3 = "after_grant s u dv"
  note w3 = after_grant_wext [OF wf, of u dv]
  note wf3 = wext_wf [OF w3]
  from wext_find_role [OF w3 ad] have ad3: "find_role ?s3 ''Admin'' = Some admin" .
  let ?s4 = "set_role_permissions ?s3 admin (remdups (role_permissions ?s3 admin @ valid_pvms ?s3))"
  let ?s1 = "fst (clean_perms ?s4)"
  have r: "sync_roles s = Inr ?s1"
    by (simp add: sync_roles_eq [OF u dv] update_admin_perm_view_Inr [OF ad3])
  note e4 = update_admin_ext [OF wf3 ad3]
  note wf4 = ext_wf [OF e4]
  have v: "set (valid_pvms ?s1) = set (valid_pvms ?s3)"
    using clean_perms_valid_pvms [OF wf4] valid_pvms_eq_nonfaulty [OF wf4]
      valid_pvms_eq_nonfaulty [OF wf3] by simp
  have a: "set (role_permissions ?s1 admin) = set (valid_pvms ?s3)"
    using clean_perms_role_permissions [of ?s4 admin] update_admin_get [OF wf3, of admin]
      valid_pvms_eq_nonfaulty [OF wf3] role_permissions_subset_pvs [of ?s3 admin]
    by auto
  have "{pv \<in> set (role_permissions s admin). \<not> faulty pv} \<subseteq> set (valid_pvms ?s3)"
    using wext_role_permissions [OF w3, of admin] role_permissions_subset_pvs [of ?s3 admin]
      valid_pvms_eq_nonfaulty [OF wf3] by auto
  with a v r show ?thesis by auto
qed



lemma wext_pv_names:
  assumes w: "wext s s'" and pv: "pv \<in> set (ab_permission_view s)"
  shows "pv_names s' pv = pv_names s pv"
proof (cases "pv_names s pv")
  case (Some x)
  from w obtain xs ys where "ab_permission s' = ab_permission s @ xs" "ab_view_menu s' = ab_view_menu s @ ys"
    unfolding wext_def by blast
  from pv_names_mono [OF this Some] Some show ?thesis by simp
next
  case None
  from w have wf: "wf_store s" by (simp add: wext_def)
  have "faulty pv"
  proof (rule ccontr)
    assume "\<not> faulty pv"
    from nonfaulty_valid [OF wf pv this] None show False
      by (auto simp: valid_pvms_mem pv_names_def split: option.splits)
  qed
  then have "pv_names s' pv = None"
    using pv_names_nonfaulty [of s' pv] by (cases "pv_names s' pv") auto
  with None show ?thesis by simp
qed









lemma fold_establish:
  assumes step: "\<And>x s. wf_store s \<Longrightarrow> ext s (f x s)"
    and est: "\<And>x s. wf_store s \<Longrightarrow> P x (f x s)"
    and stable: "\<And>x s s'. ext s s' \<Longrightarrow> P x s \<Longrightarrow> P x s'"
    and wf: "wf_store s"
  shows "\<forall>x \<in> set xs. P x (fold f xs s)"
  using wf
proof (induction xs arbitrary: s)
  case Nil then show ?case by simp
next
  case (Cons y ys)
  note e = step [OF Cons.prems, of y]
  note wf1 = ext_wf [OF e]
  have "P y (fold f ys (f y s))"
    by (rule stable [OF fold_ext [of ys f, OF step wf1] est [OF Cons.prems]])
  with Cons.IH [OF wf1] show ?case by simp
qed

lemma merge_pv_found:
  assumes wf: "wf_store s"
  shows "v \<noteq> [] \<and> p \<noteq> [] \<and> (v, p) \<notin> set all_pvs
         \<longrightarrow> find_permission_view_menu (merge_pv all_pvs s p v) p v \<noteq> None"
  using merge_perm_found [OF wf, of p v] by (simp add: merge_pv_def)

lemma merge_pvs_dag:
  assumes wf: "wf_store s"
  shows "ext s (fold (\<lambda>perm s. merge_pv all_pvs s perm v) DAG_PERMS s)"
    and "\<forall>p \<in> set DAG_PERMS. v \<noteq> [] \<and> (v, p) \<notin> set all_pvs \<longrightarrow>
           find_permission_view_menu (fold (\<lambda>perm s. merge_pv all_pvs s perm v) DAG_PERMS s) p v \<noteq> None"
proof -
  show "ext s (fold (\<lambda>perm s. merge_pv all_pvs s perm v) DAG_PERMS s)"
    by (rule fold_ext) (simp_all add: merge_pv_ext wf)
  have "ext s (merge_pv all_pvs s ''can_dag_read'' v)" (is "ext s ?s1")
    by (rule merge_pv_ext [OF wf]) (simp add: DAG_PERMS_def)
  note wf1 = ext_wf [OF this]
  have e2: "ext ?s1 (merge_pv all_pvs ?s1 ''can_dag_edit'' v)" (is "ext _ ?s2")
    by (rule merge_pv_ext [OF wf1]) (simp add: DAG_PERMS_def)
  have r: "fold (\<lambda>perm s. merge_pv all_pvs s perm v) DAG_PERMS s = ?s2"
    by (simp add: DAG_PERMS_def)
  have 1: "v \<noteq> [] \<and> (v, ''can_dag_read'') \<notin> set all_pvs \<longrightarrow>
      find_permission_view_menu ?s2 ''can_dag_read'' v \<noteq> None"
    using merge_pv_found [OF wf, of v "''can_dag_read''" all_pvs] wext_found [OF ext_wext [OF e2]]
    by auto
  have 2: "v \<noteq> [] \<and> (v, ''can_dag_edit'') \<notin> set all_pvs \<longrightarrow>
      find_permission_view_menu ?s2 ''can_dag_edit'' v \<noteq> None"
    using merge_pv_found [OF wf1, of v "''can_dag_edit''" all_pvs] by auto
  from 1 2 show "\<forall>p \<in> set DAG_PERMS. v \<noteq> [] \<and> (v, p) \<notin> set all_pvs \<longrightarrow>
           find_permission_view_menu (fold (\<lambda>perm s. merge_pv all_pvs s perm v) DAG_PERMS s) p v \<noteq> None"
    unfolding r by (auto simp: DAG_PERMS_def)
qed

lemma ext_dag_table: "ext s s' \<Longrightarrow> dag_table s' = dag_table s"
  by (simp add: ext_def wext_def)

lemma all_dags_models_cong: "dag_table s' = dag_table s \<Longrightarrow> all_dags_models s' = all_dags_models s"
  by (simp add: all_dags_models_def)

lemma create_dag_pvs_found:
  assumes wf: "wf_store s"
  shows "\<forall>d \<in> set (all_dags_models s). \<forall>p \<in> set DAG_PERMS.
           dag_id d \<noteq> [] \<and> (dag_id d, p) \<notin> set (List.map_filter (pv_names s) (ab_permission_view s))
           \<longrightarrow> find_permission_view_menu (create_dag_pvs s) p (dag_id d) \<noteq> None"
proof -
  let ?all = "List.map_filter (pv_names s) (ab_permission_view s)"
  let ?s1 = "fold (\<lambda>dag s. fold (\<lambda>perm s. merge_pv ?all s perm dag) DAG_PERMS s) DAG_VMS s"
  have 1: "ext s ?s1"
    by (rule fold_ext, rule fold_ext) (simp_all add: merge_pv_ext wf)
  note wf1 = ext_wf [OF 1]
  have m: "all_dags_models ?s1 = all_dags_models s"
    by (rule all_dags_models_cong [OF ext_dag_table [OF 1]])
  have "\<forall>d \<in> set (all_dags_models s).
      (\<forall>p \<in> set DAG_PERMS. dag_id d \<noteq> [] \<and> (dag_id d, p) \<notin> set ?all \<longrightarrow>
         find_permission_view_menu
           (fold (\<lambda>dag s. fold (\<lambda>perm s. merge_pv ?all s perm (dag_id dag)) DAG_PERMS s)
              (all_dags_models s) ?s1) p (dag_id d) \<noteq> None)"
  proof (rule fold_establish [where P = "\<lambda>d s'. \<forall>p \<in> set DAG_PERMS.
       dag_id d \<noteq> [] \<and> (dag_id d, p) \<notin> set ?all \<longrightarrow>
         find_permission_view_menu s' p (dag_id d) \<noteq> None"])
    show "wf_store ?s1" by (rule wf1)
    show "\<And>x s. wf_store s \<Longrightarrow> ext s (fold (\<lambda>perm s. merge_pv ?all s perm (dag_id x)) DAG_PERMS s)"
      by (rule merge_pvs_dag(1))
    show "\<And>x s. wf_store s \<Longrightarrow> \<forall>p\<in>set DAG_PERMS.
              dag_id x \<noteq> [] \<and> (dag_id x, p) \<notin> set ?all \<longrightarrow>
              find_permission_view_menu
               (fold (\<lambda>perm s. merge_pv ?all s perm (dag_id x)) DAG_PERMS s) p (dag_id x) \<noteq> None"
      by (rule merge_pvs_dag(2))
    show "\<And>x s s'. ext s s' \<Longrightarrow>
         \<forall>p\<in>set DAG_PERMS. dag_id x \<noteq> [] \<and> (dag_id x, p) \<notin> set ?all \<longrightarrow>
              find_permission_view_menu s p (dag_id x) \<noteq> None \<Longrightarrow>
         \<forall>p\<in>set DAG_PERMS. dag_id x \<noteq> [] \<and> (dag_id x, p) \<notin> set ?all \<longrightarrow>
              find_permission_view_menu s' p (dag_id x) \<noteq> None"
      using wext_found ext_wext by blast
  qed
  then show ?thesis
    unfolding create_dag_pvs_def Let_def m .
qed

lemma new_pvs_named_same:
  "ab_permission_view s' = ab_permission_view s \<Longrightarrow> new_pvs_named V s s'"
  by (simp add: new_pvs_named_def)

lemma new_pvs_named_mono: "new_pvs_named V s s' \<Longrightarrow> V \<subseteq> W \<Longrightarrow> new_pvs_named W s s'"
  unfolding new_pvs_named_def by blast

lemma new_pvs_named_trans:
  assumes "wext s' s''" "new_pvs_named V s s'" "new_pvs_named V s' s''"
  shows "new_pvs_named V s s''"
  unfolding new_pvs_named_def
proof
  fix pv assume pv: "pv \<in> set (ab_permission_view s'') - set (ab_permission_view s)"
  show "\<exists>p v. pv_names s'' pv = Some (p, v) \<and> p \<in> set DAG_PERMS \<and> v \<in> V"
  proof (cases "pv \<in> set (ab_permission_view s')")
    case True
    with pv assms(2) obtain p v where "pv_names s' pv = Some (p, v)" "p \<in> set DAG_PERMS" "v \<in> V"
      unfolding new_pvs_named_def by blast
    with wext_pv_names [OF assms(1) True] show ?thesis by simp
  next
    case False
    with pv assms(3) show ?thesis unfolding new_pvs_named_def by blast
  qed
qed

lemma add_permission_view_menu_named:
  assumes wf: "wf_store s" and q: "q \<in> set DAG_PERMS"
  shows "new_pvs_named {d} s (add_permission_view_menu s q d)"
proof (cases "q \<noteq> [] \<and> d \<noteq> [] \<and> find_permission_view_menu s q d = None")
  case False
  then have "add_permission_view_menu s q d = s"
    by (auto simp: add_permission_view_menu_def split: option.splits)
  then show ?thesis by (simp add: new_pvs_named_def)
next
  case True
  then have T: "q \<noteq> []" "d \<noteq> []" "find_permission_view_menu s q d = None" by simp_all
  let ?s' = "add_permission_view_menu s q d"
  from add_permission_view_menu_new [OF wf T] obtain perm vm ps vs pv where
    r: "?s' = s\<lparr>ab_view_menu := ab_view_menu s @ vs, ab_permission := ab_permission s @ ps,
             ab_permission_view := ab_permission_view s @ [pv]\<rparr>"
    and pv: "pv = \<lparr>pv_id = next_id (map pv_id (ab_permission_view s)),
               permission_id = Some (p_id perm), view_menu_id = Some (vm_id vm)\<rparr>"
    and f: "find_permission ?s' q = Some perm" "find_view_menu ?s' d = Some vm"
    and w: "wf_store ?s'"
    by blast
  have n: "pv_names ?s' pv = Some (q, d)"
    using pv_names_of_rows [OF w, of perm vm pv] find_permission_mem [OF f(1)]
      find_view_menu_mem [OF f(2)] pv by simp
  have pvs: "ab_permission_view ?s' = ab_permission_view s @ [pv]"
    by (subst r) simp
  from n q show ?thesis unfolding new_pvs_named_def pvs by auto
qed

lemma merge_pv_named:
  "wf_store s \<Longrightarrow> q \<in> set DAG_PERMS \<Longrightarrow> new_pvs_named {d} s (merge_pv all_pvs s q d)"
  using add_permission_view_menu_named [of s q d]
  by (auto simp: merge_pv_def merge_perm_eq new_pvs_named_def)

lemma merge_perm_named:
  "wf_store s \<Longrightarrow> q \<in> set DAG_PERMS \<Longrightarrow> new_pvs_named {d} s (merge_perm s q d)"
  using add_permission_view_menu_named [of s q d]
  by (auto simp: merge_perm_eq new_pvs_named_def)

lemma fold_named:
  assumes step: "\<And>x s. x \<in> set xs \<Longrightarrow> wf_store s \<Longrightarrow> ext s (f x s)"
    and nm: "\<And>x s. x \<in> set xs \<Longrightarrow> wf_store s \<Longrightarrow> new_pvs_named V s (f x s)"
    and wf: "wf_store s"
  shows "new_pvs_named V s (fold f xs s)"
  using assms
proof (induction xs arbitrary: s)
  case Nil then show ?case by (simp add: new_pvs_named_def)
next
  case (Cons y ys)
  from Cons.prems have e: "ext s (f y s)" and n: "new_pvs_named V s (f y s)" by simp_all
  note wf1 = ext_wf [OF e]
  have st: "\<And>x s. x \<in> set ys \<Longrightarrow> wf_store s \<Longrightarrow> ext s (f x s)" using Cons.prems(1) by simp
  have nm': "\<And>x s. x \<in> set ys \<Longrightarrow> wf_store s \<Longrightarrow> new_pvs_named V s (f x s)"
    using Cons.prems(2) by simp
  have "new_pvs_named V (f y s) (fold f ys (f y s))"
    by (rule Cons.IH [OF st nm' wf1])
  from new_pvs_named_trans [OF ext_wext [OF fold_ext [of ys f, OF st wf1]] n this]
  show ?case by simp
qed

lemma merge_pvs_dag_named:
  assumes wf: "wf_store s"
  shows "new_pvs_named {v} s (fold (\<lambda>perm s. merge_pv all_pvs s perm v) DAG_PERMS s)"
  by (rule fold_named) (simp_all add: merge_pv_ext merge_pv_named wf)

lemma create_perm_vm_for_all_dag_named:
  assumes wf: "wf_store s"
  shows "new_pvs_named {''all_dags''} s (create_perm_vm_for_all_dag s)"
  unfolding create_perm_vm_for_all_dag_def
proof (rule fold_named [OF _ _ wf])
  fix x s assume x: "x \<in> set DAG_VMS" and w: "wf_store s"
  show "ext s (fold (\<lambda>perm s. merge_perm s perm x) DAG_PERMS s)"
    by (rule fold_ext) (simp_all add: merge_perm_ext w)
  have "new_pvs_named {x} s (fold (\<lambda>perm s. merge_perm s perm x) DAG_PERMS s)"
    by (rule fold_named) (simp_all add: merge_perm_ext merge_perm_named w)
  with x show "new_pvs_named {''all_dags''} s (fold (\<lambda>perm s. merge_perm s perm x) DAG_PERMS s)"
    by (simp add: DAG_VMS_def)
qed

lemma create_dag_pvs_named:
  assumes wf: "wf_store s"
  shows "new_pvs_named ({''all_dags''} \<union> dag_id ` set (all_dags_models s)) s (create_dag_pvs s)"
proof -
  let ?V = "{''all_dags''} \<union> dag_id ` set (all_dags_models s)"
  let ?all = "List.map_filter (pv_names s) (ab_permission_view s)"
  let ?s1 = "fold (\<lambda>dag s. fold (\<lambda>perm s. merge_pv ?all s perm dag) DAG_PERMS s) DAG_VMS s"
  have 1: "ext s ?s1"
    by (rule fold_ext, rule fold_ext) (simp_all add: merge_pv_ext wf)
  note wf1 = ext_wf [OF 1]
  have m: "all_dags_models ?s1 = all_dags_models s"
    by (rule all_dags_models_cong [OF ext_dag_table [OF 1]])
  have n1: "new_pvs_named ?V s ?s1"
  proof (rule fold_named [OF _ _ wf])
    fix x s' assume x: "x \<in> set DAG_VMS" and w: "wf_store s'"
    show "ext s' (fold (\<lambda>perm s. merge_pv ?all s perm x) DAG_PERMS s')"
      by (rule merge_pvs_dag(1) [OF w])
    from x new_pvs_named_mono [OF merge_pvs_dag_named [OF w, of x ?all], of ?V]
    show "new_pvs_named ?V s' (fold (\<lambda>perm s. merge_pv ?all s perm x) DAG_PERMS s')"
      by (simp add: DAG_VMS_def)
  qed
  let ?s2 = "fold (\<lambda>dag s. fold (\<lambda>perm s. merge_pv ?all s perm (dag_id dag)) DAG_PERMS s)
              (all_dags_models s) ?s1"
  have e2: "ext ?s1 ?s2"
    by (rule fold_ext) (simp_all add: merge_pvs_dag(1) wf1)
  have n2: "new_pvs_named ?V ?s1 ?s2"
  proof (rule fold_named [OF _ _ wf1])
    fix x s' assume x: "x \<in> set (all_dags_models s)" and w: "wf_store s'"
    show "ext s' (fold (\<lambda>perm s. merge_pv ?all s perm (dag_id x)) DAG_PERMS s')"
      by (rule merge_pvs_dag(1) [OF w])
    from x new_pvs_named_mono [OF merge_pvs_dag_named [OF w, of "dag_id x" ?all], of ?V]
    show "new_pvs_named ?V s' (fold (\<lambda>perm s. merge_pv ?all s perm (dag_id x)) DAG_PERMS s')"
      by auto
  qed
  from new_pvs_named_trans [OF ext_wext [OF e2] n1 n2]
  show ?thesis unfolding create_dag_pvs_def Let_def m .
qed

lemma add_role_frame:
  "ab_permission (fst (add_role s n)) = ab_permission s"
  "ab_view_menu (fst (add_role s n)) = ab_view_menu s"
  "ab_permission_view (fst (add_role s n)) = ab_permission_view s"
  "dag_table (fst (add_role s n)) = dag_table s"
  by (simp_all add: add_role_def Let_def split: option.splits)

lemma init_role_frame:
  "ab_permission (init_role s n vms perms) = ab_permission s"
  "ab_view_menu (init_role s n vms perms) = ab_view_menu s"
  "ab_permission_view (init_role s n vms perms) = ab_permission_view s"
  "dag_table (init_role s n vms perms) = dag_table s"
  using add_role_frame [of s n]
  by (auto simp: init_role_eq split: option.splits prod.splits)

lemma init_roles_frame:
  "ab_permission (init_roles s) = ab_permission s"
  "ab_view_menu (init_roles s) = ab_view_menu s"
  "ab_permission_view (init_roles s) = ab_permission_view s"
  "dag_table (init_roles s) = dag_table s"
  by (simp_all add: init_roles_eq init_role_frame)

lemma pv_names_cong:
  "ab_permission s' = ab_permission s \<Longrightarrow> ab_view_menu s' = ab_view_menu s
   \<Longrightarrow> pv_names s' = pv_names s"
proof -
  assume a: "ab_permission s' = ab_permission s" "ab_view_menu s' = ab_view_menu s"
  show ?thesis
    by (intro ext) (simp only: pv_names_def pv_permission_def pv_view_menu_def a)
qed

lemma set_all_pvs: "set (List.map_filter (pv_names s) (ab_permission_view s))
    = {x. \<exists>pv \<in> set (ab_permission_view s). pv_names s pv = Some x}"
  by (simp add: set_map_filter)

lemma not_swapped_kept:
  assumes wf: "wf_store s" and p: "p \<in> set DAG_PERMS"
    and n: "(d, p) \<notin> set (List.map_filter (pv_names s) (ab_permission_view s))"
  shows "(d, p) \<notin> set (List.map_filter (pv_names (init_roles (create_perm_vm_for_all_dag s)))
                          (ab_permission_view (init_roles (create_perm_vm_for_all_dag s))))"
proof
  let ?sa = "create_perm_vm_for_all_dag s"
  let ?sb = "init_roles ?sa"
  assume "(d, p) \<in> set (List.map_filter (pv_names ?sb) (ab_permission_view ?sb))"
  then obtain pv where pv: "pv \<in> set (ab_permission_view ?sa)" "pv_names ?sa pv = Some (d, p)"
    unfolding set_all_pvs
    using pv_names_cong [OF init_roles_frame(1,2), of ?sa] init_roles_frame(3) [of ?sa] by auto
  note e = ext_wext [OF create_perm_vm_for_all_dag_ext [OF wf]]
  show False
  proof (cases "pv \<in> set (ab_permission_view s)")
    case True
    from wext_pv_names [OF e True] pv(2) True n show False unfolding set_all_pvs by auto
  next
    case False
    with create_perm_vm_for_all_dag_named [OF wf] pv(1)
    obtain p' v' where "pv_names ?sa pv = Some (p', v')" "v' \<in> {''all_dags''}"
      unfolding new_pvs_named_def by blast
    with pv(2) have "p = ''all_dags''" by simp
    with p show False by (simp add: DAG_PERMS_def)
  qed
qed

lemma before_grant_dag_found:
  assumes wf: "wf_store s" and d: "d \<in> set (all_dags_models s)" and p: "p \<in> set DAG_PERMS"
    and ne: "dag_id d \<noteq> []"
    and n: "(dag_id d, p) \<notin> set (List.map_filter (pv_names s) (ab_permission_view s))"
  shows "find_permission_view_menu (before_grant s) p (dag_id d) \<noteq> None"
proof -
  let ?sa = "create_perm_vm_for_all_dag s"
  let ?sb = "init_roles ?sa"
  note 1 = create_perm_vm_for_all_dag_ext [OF wf]
  note 2 = init_roles_ext [OF ext_wf [OF 1]]
  have m: "all_dags_models ?sb = all_dags_models s"
    by (rule all_dags_models_cong) (simp add: ext_dag_table [OF 1] ext_dag_table [OF 2])
  from create_dag_pvs_found [OF ext_wf [OF 2]] d p ne not_swapped_kept [OF wf p n]
  show ?thesis unfolding m before_grant_def by blast
qed

lemma before_grant_named:
  assumes wf: "wf_store s"
  shows "new_pvs_named ({''all_dags''} \<union> dag_id ` set (all_dags_models s)) s (before_grant s)"
proof -
  let ?V = "{''all_dags''} \<union> dag_id ` set (all_dags_models s)"
  let ?sa = "create_perm_vm_for_all_dag s"
  let ?sb = "init_roles ?sa"
  note 1 = create_perm_vm_for_all_dag_ext [OF wf]
  note 2 = init_roles_ext [OF ext_wf [OF 1]]
  note 3 = create_dag_pvs_ext [OF ext_wf [OF 2]]
  have m: "all_dags_models ?sb = all_dags_models s"
    by (rule all_dags_models_cong) (simp add: ext_dag_table [OF 1] ext_dag_table [OF 2])
  have a: "new_pvs_named ?V s ?sa"
    by (rule new_pvs_named_mono [OF create_perm_vm_for_all_dag_named [OF wf]]) simp
  have b: "new_pvs_named ?V ?sa ?sb"
    by (rule new_pvs_named_same) (simp add: init_roles_frame)
  have c: "new_pvs_named ?V ?sb (create_dag_pvs ?sb)"
    using create_dag_pvs_named [OF ext_wf [OF 2]] unfolding m .
  from new_pvs_named_trans [OF ext_wext [OF 3] new_pvs_named_trans [OF ext_wext [OF 2] a b] c]
  show ?thesis by (simp add: before_grant_def)
qed

lemma found_named:
  assumes wf: "wf_store s" and f: "find_permission_view_menu s p v = Some pv"
  shows "pv \<in> set (valid_pvms s) \<and> pv_names s pv = Some (p, v)"
proof -
  from f obtain perm vm where a: "find_permission s p = Some perm" "find_view_menu s v = Some vm"
    "query_pv_first s perm vm = Some pv"
    unfolding find_permission_view_menu_Some by blast
  from a(3) have pv: "pv \<in> set (ab_permission_view s)" "permission_id pv = Some (p_id perm)"
    "view_menu_id pv = Some (vm_id vm)"
    using find_Some_mem [of _ "ab_permission_view s" pv] unfolding query_pv_first_def by auto
  from pv_names_of_rows [OF wf _ _ pv(2,3)] find_permission_mem [OF a(1)] find_view_menu_mem [OF a(2)]
  have n: "pv_names s pv = Some (p, v)" by simp
  with pv(1) show ?thesis
    by (auto simp: valid_pvms_mem pv_names_def split: option.splits)
qed

lemma clean_perms_found:
  "find_permission_view_menu (fst (clean_perms s)) p v = find_permission_view_menu s p v"
proof -
  have Q: "query_pv_first (fst (clean_perms s)) perm vm = query_pv_first s perm vm" for perm vm
  proof -
    have F: "find (\<lambda>pv. permission_id pv = Some (p_id perm) \<and> view_menu_id pv = Some (vm_id vm))
            (filter (\<lambda>pv. \<not> faulty pv) (ab_permission_view s))
        = find (\<lambda>pv. permission_id pv = Some (p_id perm) \<and> view_menu_id pv = Some (vm_id vm))
            (ab_permission_view s)"
      by (rule find_filter_keep) (simp add: faulty_def)
    show ?thesis by (simp add: query_pv_first_def clean_perms_fst F)
  qed
  have "find_permission (fst (clean_perms s)) p = find_permission s p"
    "find_view_menu (fst (clean_perms s)) v = find_view_menu s v"
    by (simp_all add: find_permission_def find_view_menu_def clean_perms_fst)
  then show ?thesis
    by (simp add: find_permission_view_menu_def Q split: option.splits)
qed


lemma find_permission_view_menu_cong:
  "ab_permission s' = ab_permission s \<Longrightarrow> ab_view_menu s' = ab_view_menu s \<Longrightarrow>
   ab_permission_view s' = ab_permission_view s \<Longrightarrow>
   find_permission_view_menu s' = find_permission_view_menu s"
proof -
  assume a: "ab_permission s' = ab_permission s" "ab_view_menu s' = ab_view_menu s"
    "ab_permission_view s' = ab_permission_view s"
  have "query_pv_first s' = query_pv_first s"
    by (intro ext) (simp only: query_pv_first_def a)
  then show ?thesis
    by (intro ext) (simp only: find_permission_view_menu_def find_permission_def find_view_menu_def a)
qed

lemma sync_roles_store:
  assumes wf: "wf_store s"
  obtains u dv where "find_role (before_grant s) ''User'' = Some u"
    "find_view_menu (before_grant s) ''all_dags'' = Some dv"
    "find_role (after_grant s u dv) ''Admin'' = None \<Longrightarrow>
       sync_roles s = Inl (AttributeError, after_grant s u dv)"
    "\<And>admin. find_role (after_grant s u dv) ''Admin'' = Some admin \<Longrightarrow>
       sync_roles s = Inr (fst (clean_perms (set_role_permissions (after_grant s u dv) admin
          (remdups (role_permissions (after_grant s u dv) admin @ valid_pvms (after_grant s u dv))))))"
proof -
  from before_grant_user [OF wf] before_grant_dag_vm [OF wf] obtain u dv where
    u: "find_role (before_grant s) ''User'' = Some u"
    and dv: "find_view_menu (before_grant s) ''all_dags'' = Some dv" by blast
  show thesis
  proof (rule that [OF u dv])
    assume "find_role (after_grant s u dv) ''Admin'' = None"
    then show "sync_roles s = Inl (AttributeError, after_grant s u dv)"
      by (simp add: sync_roles_eq [OF u dv] update_admin_perm_view_Inl)
  next
    fix admin assume "find_role (after_grant s u dv) ''Admin'' = Some admin"
    then show "sync_roles s = Inr (fst (clean_perms (set_role_permissions (after_grant s u dv) admin
          (remdups (role_permissions (after_grant s u dv) admin @ valid_pvms (after_grant s u dv))))))"
      by (simp add: sync_roles_eq [OF u dv] update_admin_perm_view_Inr)
  qed
qed

lemma after_grant_frame:
  "ab_permission (after_grant s u dv) = ab_permission (before_grant s)"
  "ab_view_menu (after_grant s u dv) = ab_view_menu (before_grant s)"
  "ab_permission_view (after_grant s u dv) = ab_permission_view (before_grant s)"
  "ab_role (after_grant s u dv) = ab_role (before_grant s)"
  "dag_table (after_grant s u dv) = dag_table (before_grant s)"
  by (simp_all add: after_grant_def)

lemma sync_roles_final:
  assumes wf: "wf_store s"
  shows "wf_store (store_of (sync_roles s))"
    and "ab_permission (store_of (sync_roles s)) = ab_permission (before_grant s)"
    and "ab_view_menu (store_of (sync_roles s)) = ab_view_menu (before_grant s)"
    and "ab_role (store_of (sync_roles s)) = ab_role (before_grant s)"
    and "dag_table (store_of (sync_roles s)) = dag_table s"
    and "set (ab_permission_view (store_of (sync_roles s))) \<subseteq> set (ab_permission_view (before_grant s))"
    and "{pv \<in> set (ab_permission_view (before_grant s)). \<not> faulty pv}
           \<subseteq> set (ab_permission_view (store_of (sync_roles s)))"
    and "find_permission_view_menu (store_of (sync_roles s)) = find_permission_view_menu (before_grant s)"
proof -
  from sync_roles_store [OF wf] obtain u dv where
    u: "find_role (before_grant s) ''User'' = Some u"
    and dv: "find_view_menu (before_grant s) ''all_dags'' = Some dv"
    and n: "find_role (after_grant s u dv) ''Admin'' = None \<Longrightarrow>
       sync_roles s = Inl (AttributeError, after_grant s u dv)"
    and a: "\<And>admin. find_role (after_grant s u dv) ''Admin'' = Some admin \<Longrightarrow>
       sync_roles s = Inr (fst (clean_perms (set_role_permissions (after_grant s u dv) admin
          (remdups (role_permissions (after_grant s u dv) admin @ valid_pvms (after_grant s u dv))))))"
    by metis
  let ?s3 = "after_grant s u dv"
  note wf3 = wext_wf [OF after_grant_wext [OF wf, of u dv]]
  note F = after_grant_frame [of s u dv]
  have dt: "dag_table (before_grant s) = dag_table s"
    by (rule ext_dag_table [OF before_grant_ext [OF wf]])
  have f3: "find_permission_view_menu ?s3 = find_permission_view_menu (before_grant s)"
    by (rule find_permission_view_menu_cong) (simp_all add: F)
  have "wf_store (store_of (sync_roles s)) \<and>
    ab_permission (store_of (sync_roles s)) = ab_permission (before_grant s) \<and>
    ab_view_menu (store_of (sync_roles s)) = ab_view_menu (before_grant s) \<and>
    ab_role (store_of (sync_roles s)) = ab_role (before_grant s) \<and>
    dag_table (store_of (sync_roles s)) = dag_table s \<and>
    set (ab_permission_view (store_of (sync_roles s))) \<subseteq> set (ab_permission_view (before_grant s)) \<and>
    {pv \<in> set (ab_permission_view (before_grant s)). \<not> faulty pv}
           \<subseteq> set (ab_permission_view (store_of (sync_roles s))) \<and>
    find_permission_view_menu (store_of (sync_roles s)) = find_permission_view_menu (before_grant s)"
  proof (cases "find_role ?s3 ''Admin''")
    case None
    from n [OF None] wf3 F dt f3 show ?thesis by (simp add: store_of_def)
  next
    case (Some admin)
    let ?s4 = "set_role_permissions ?s3 admin (remdups (role_permissions ?s3 admin @ valid_pvms ?s3))"
    note wf4 = ext_wf [OF update_admin_ext [OF wf3 Some]]
    have f4: "find_permission_view_menu ?s4 = find_permission_view_menu ?s3"
      by (rule find_permission_view_menu_cong) simp_all
    have f5: "find_permission_view_menu (fst (clean_perms ?s4)) = find_permission_view_menu ?s4"
      by (intro ext) (simp add: clean_perms_found)
    from a [OF Some] clean_perms_wf [OF wf4] F dt f3 f4 f5 show ?thesis
      by (auto simp: store_of_def clean_perms_fst)
  qed
  then show "wf_store (store_of (sync_roles s))"
    and "ab_permission (store_of (sync_roles s)) = ab_permission (before_grant s)"
    and "ab_view_menu (store_of (sync_roles s)) = ab_view_menu (before_grant s)"
    and "ab_role (store_of (sync_roles s)) = ab_role (before_grant s)"
    and "dag_table (store_of (sync_roles s)) = dag_table s"
    and "set (ab_permission_view (store_of (sync_roles s))) \<subseteq> set (ab_permission_view (before_grant s))"
    and "{pv \<in> set (ab_permission_view (before_grant s)). \<not> faulty pv}
           \<subseteq> set (ab_permission_view (store_of (sync_roles s)))"
    and "find_permission_view_menu (store_of (sync_roles s)) = find_permission_view_menu (before_grant s)"
    by blast+
qed








































section \<open>The claims\<close>

text \<open>
  Claim C6 (orphan cleanup). After \<open>clean_perms\<close> no permission-view row with a null
  permission or view-menu reference is left, the rows with both references set and all
  other tables are as before, and the number of deleted rows is logged (the line is
  written when the number is not zero). When the one faulty row of the store is a row
  with a null permission, the logged count is 1. \<open>clean_perms\<close> is the last pass of
  \<open>sync_roles\<close>, so the store \<open>sync_roles\<close> returns has no such row either.
\<close>

theorem clean_perms_removes_orphans:
  "(\<forall>pv \<in> set (ab_permission_view (fst (clean_perms s))).
       permission_id pv \<noteq> None \<and> view_menu_id pv \<noteq> None) \<and>
   fst (clean_perms s) =
     s\<lparr>ab_permission_view :=
         filter (\<lambda>pv. permission_id pv \<noteq> None \<and> view_menu_id pv \<noteq> None) (ab_permission_view s)\<rparr> \<and>
   snd (clean_perms s) =
     Cleaning_faulty_perms #
       (if length (filter (\<lambda>pv. permission_id pv = None \<or> view_menu_id pv = None)
                          (ab_permission_view s)) \<noteq> 0
        then [Deleted_faulty_permissions
                (length (filter (\<lambda>pv. permission_id pv = None \<or> view_menu_id pv = None)
                                (ab_permission_view s)))]
        else []) \<and>
   (\<forall>pv. filter (\<lambda>pv. permission_id pv = None \<or> view_menu_id pv = None) (ab_permission_view s) = [pv]
          \<and> permission_id pv = None
        \<longrightarrow> snd (clean_perms s) = [Cleaning_faulty_perms, Deleted_faulty_permissions 1]) \<and>
   (\<forall>s'. sync_roles s = Inr s' \<longrightarrow>
        (\<forall>pv \<in> set (ab_permission_view s'). permission_id pv \<noteq> None \<and> view_menu_id pv \<noteq> None))"
proof -
  have f: "faulty = (\<lambda>pv. permission_id pv = None \<or> view_menu_id pv = None)"
    by (rule ext) (simp add: faulty_def)
  have nf: "(\<lambda>pv. \<not> faulty pv) = (\<lambda>pv. permission_id pv \<noteq> None \<and> view_menu_id pv \<noteq> None)"
    by (rule ext) (simp add: faulty_def)
  have a: "\<forall>pv \<in> set (ab_permission_view (fst (clean_perms s'))).
       permission_id pv \<noteq> None \<and> view_menu_id pv \<noteq> None" for s'
    by (simp add: clean_perms_fst nf)
  have b: "fst (clean_perms s) =
     s\<lparr>ab_permission_view :=
         filter (\<lambda>pv. permission_id pv \<noteq> None \<and> view_menu_id pv \<noteq> None) (ab_permission_view s)\<rparr>"
    by (simp add: clean_perms_fst nf)
  have c: "snd (clean_perms s) =
     Cleaning_faulty_perms #
       (if length (filter (\<lambda>pv. permission_id pv = None \<or> view_menu_id pv = None)
                          (ab_permission_view s)) \<noteq> 0
        then [Deleted_faulty_permissions
                (length (filter (\<lambda>pv. permission_id pv = None \<or> view_menu_id pv = None)
                                (ab_permission_view s)))]
        else [])"
    using clean_perms_snd [of s] unfolding f .
  have d: "\<forall>pv. filter (\<lambda>pv. permission_id pv = None \<or> view_menu_id pv = None) (ab_permission_view s) = [pv]
          \<and> permission_id pv = None
        \<longrightarrow> snd (clean_perms s) = [Cleaning_faulty_perms, Deleted_faulty_permissions 1]"
    unfolding c by simp
  have e: "\<forall>s'. sync_roles s = Inr s' \<longrightarrow>
        (\<forall>pv \<in> set (ab_permission_view s'). permission_id pv \<noteq> None \<and> view_menu_id pv \<noteq> None)"
    using a sync_roles_Inr_clean by blast
  from a b c d e show ?thesis by blast
qed

theorem clean_perms_removes_orphans_witness:
  "filter (\<lambda>pv. permission_id pv = None \<or> view_menu_id pv = None) (ab_permission_view s_orphan)
     = [\<lparr>pv_id = 1, permission_id = None, view_menu_id = Some 1\<rparr>] \<and>
   snd (clean_perms s_orphan) = [Cleaning_faulty_perms, Deleted_faulty_permissions 1] \<and>
   ab_permission_view (fst (clean_perms s_orphan)) = [] \<and>
   ab_permission_view (store_of (sync_roles s_orphan)) =
      [\<lparr>pv_id = 2, permission_id = Some 1, view_menu_id = Some 2\<rparr>,
       \<lparr>pv_id = 3, permission_id = Some 2, view_menu_id = Some 2\<rparr>]"
proof -
  have a: "filter (\<lambda>pv. permission_id pv = None \<or> view_menu_id pv = None) (ab_permission_view s_orphan)
     = [\<lparr>pv_id = 1, permission_id = None, view_menu_id = Some 1\<rparr>]"
    by (simp add: s_orphan_def)
  have b: "ab_permission_view (store_of (sync_roles s_orphan)) =
      [\<lparr>pv_id = 2, permission_id = Some 1, view_menu_id = Some 2\<rparr>,
       \<lparr>pv_id = 3, permission_id = Some 2, view_menu_id = Some 2\<rparr>]"
    by code_simp
  have c: "ab_permission_view (fst (clean_perms s_orphan)) = []"
    by code_simp
  from clean_perms_removes_orphans [of s_orphan]
  have d: "\<forall>pv. filter (\<lambda>pv. permission_id pv = None \<or> view_menu_id pv = None)
              (ab_permission_view s_orphan) = [pv] \<and> permission_id pv = None
        \<longrightarrow> snd (clean_perms s_orphan) = [Cleaning_faulty_perms, Deleted_faulty_permissions 1]"
    by (elim conjE)
  from d a
  have "snd (clean_perms s_orphan) = [Cleaning_faulty_perms, Deleted_faulty_permissions 1]"
    by simp
  with a b c show ?thesis by blast
qed


text \<open>
  Claim C2 (seeding skip). \<open>init_role\<close> leaves the whole store as it is when the role it
  finds has a non-empty collection of permission-views, whatever the baseline
  \<open>role_vms\<close>, \<open>role_perms\<close> is. In a store that satisfies the schema constraints the
  seeding pass of \<open>sync_roles\<close>, which calls \<open>init_role\<close> for Viewer, User and Op in turn,
  returns a store in which every role row with a non-empty collection (a built-in one
  in particular) has the collection it had before the pass.
\<close>

theorem init_role_keeps_existing_permissions:
  "(find_role s name = Some r \<and> role_permissions s r \<noteq> []
      \<longrightarrow> init_role s name role_vms role_perms = s) \<and>
   (wf_store s \<and> r \<in> set (ab_role s) \<and> role_permissions s r \<noteq> []
      \<longrightarrow> role_permissions (init_roles s) r = role_permissions s r)"
  using init_role_noop init_roles_other by blast

text \<open>
  Claim C3 (empty-role seeding). In a store that satisfies the schema constraints,
  \<open>init_role\<close> on a role whose collection is empty assigns the collection once, and
  afterwards the role holds exactly the valid permission-views of the store (both
  references load a row) whose permission name is in \<open>role_perms\<close> and whose view-menu
  name is in \<open>role_vms\<close>; the permission-view table itself is not changed. A role that
  does not exist is created first, as a new row at the end of the role table, and is
  seeded in the same way.
\<close>

theorem init_role_seeds_empty_role:
  "wf_store s \<Longrightarrow>
   (find_role s role_name = Some r \<and> role_permissions s r = [] \<longrightarrow>
      set (role_permissions (init_role s role_name role_vms role_perms) r) =
        {pv \<in> set (valid_pvms s).
           \<exists>p v. pv_names s pv = Some (p, v) \<and> p \<in> set role_perms \<and> v \<in> set role_vms} \<and>
      ab_permission_view (init_role s role_name role_vms role_perms) = ab_permission_view s \<and>
      ab_role (init_role s role_name role_vms role_perms) = ab_role s) \<and>
   (find_role s role_name = None \<longrightarrow>
      (\<exists>r'. ab_role (init_role s role_name role_vms role_perms) = ab_role s @ [r'] \<and>
            r_name r' = role_name \<and>
            find_role (init_role s role_name role_vms role_perms) role_name = Some r' \<and>
            set (role_permissions (init_role s role_name role_vms role_perms) r') =
              {pv \<in> set (valid_pvms s).
                 \<exists>p v. pv_names s pv = Some (p, v) \<and> p \<in> set role_perms \<and> v \<in> set role_vms}) \<and>
      ab_permission_view (init_role s role_name role_vms role_perms) = ab_permission_view s)"
proof (intro conjI impI)
  assume wf: "wf_store s"
  {
    assume a: "find_role s role_name = Some r \<and> role_permissions s r = []"
    then have f: "find_role s role_name = Some r" and e: "role_permissions s r = []" by simp_all
    note I = init_role_seed_existing [OF wf f e, of role_vms role_perms]
    show "set (role_permissions (init_role s role_name role_vms role_perms) r) =
        {pv \<in> set (valid_pvms s).
           \<exists>p v. pv_names s pv = Some (p, v) \<and> p \<in> set role_perms \<and> v \<in> set role_vms}"
      using I(2) by (simp only: role_seed_set)
    show "ab_permission_view (init_role s role_name role_vms role_perms) = ab_permission_view s"
      by (simp add: I(1))
    show "ab_role (init_role s role_name role_vms role_perms) = ab_role s"
      by (simp add: I(1))
  }
  {
    assume n: "find_role s role_name = None"
    from init_role_seed_new [OF wf n, of role_vms role_perms]
    show "\<exists>r'. ab_role (init_role s role_name role_vms role_perms) = ab_role s @ [r'] \<and>
            r_name r' = role_name \<and>
            find_role (init_role s role_name role_vms role_perms) role_name = Some r' \<and>
            set (role_permissions (init_role s role_name role_vms role_perms) r') =
              {pv \<in> set (valid_pvms s).
                 \<exists>p v. pv_names s pv = Some (p, v) \<and> p \<in> set role_perms \<and> v \<in> set role_vms}"
      by (simp only: role_seed_set)
    from init_role_ext [OF wf, of role_name role_vms role_perms]
    have "wext s (init_role s role_name role_vms role_perms)" by (simp add: ext_def)
    moreover have "ab_permission_view (fst (add_role s role_name)) = ab_permission_view s"
      by (simp add: add_role_def Let_def split: option.splits)
    ultimately show "ab_permission_view (init_role s role_name role_vms role_perms) = ab_permission_view s"
      using n by (simp add: init_role_eq split: prod.splits)
  }
qed

theorem init_role_keeps_existing_permissions_witness:
  "find_role s_seeded ''Viewer'' = Some \<lparr>r_id = 2, r_name = ''Viewer''\<rparr> \<and>
   role_permissions s_seeded \<lparr>r_id = 2, r_name = ''Viewer''\<rparr>
     = [\<lparr>pv_id = 1, permission_id = Some 1, view_menu_id = Some 1\<rparr>] \<and>
   wf_store s_seeded \<and> \<lparr>r_id = 2, r_name = ''Viewer''\<rparr> \<in> set (ab_role s_seeded) \<and>
   init_role s_seeded ''Viewer'' (VIEWER_VMS @ DAG_VMS) VIEWER_PERMS = s_seeded \<and>
   role_permissions (init_roles s_seeded) \<lparr>r_id = 2, r_name = ''Viewer''\<rparr>
     = [\<lparr>pv_id = 1, permission_id = Some 1, view_menu_id = Some 1\<rparr>]"
proof -
  let ?r = "\<lparr>r_id = 2, r_name = ''Viewer''\<rparr>"
  have h1: "find_role s_seeded ''Viewer'' = Some ?r" by code_simp
  have h2: "role_permissions s_seeded ?r = [\<lparr>pv_id = 1, permission_id = Some 1, view_menu_id = Some 1\<rparr>]"
    by code_simp
  have h3: "wf_store s_seeded" by code_simp
  have h4: "?r \<in> set (ab_role s_seeded)" by code_simp
  from h2 have h5: "role_permissions s_seeded ?r \<noteq> []" by simp
  from init_role_keeps_existing_permissions
         [of s_seeded "''Viewer''" ?r "VIEWER_VMS @ DAG_VMS" VIEWER_PERMS] h1 h3 h4 h5
  have "init_role s_seeded ''Viewer'' (VIEWER_VMS @ DAG_VMS) VIEWER_PERMS = s_seeded"
    "role_permissions (init_roles s_seeded) ?r = role_permissions s_seeded ?r"
    by blast+
  with h1 h2 h3 h4 show ?thesis by simp
qed

theorem init_role_seeds_empty_role_witness:
  "wf_store s_dashboard \<and>
   find_role s_dashboard ''Viewer'' = Some \<lparr>r_id = 2, r_name = ''Viewer''\<rparr> \<and>
   role_permissions s_dashboard \<lparr>r_id = 2, r_name = ''Viewer''\<rparr> = [] \<and>
   find_role s_dashboard ''Op'' = None \<and>
   {pv \<in> set (valid_pvms s_dashboard).
      \<exists>p v. pv_names s_dashboard pv = Some (p, v) \<and> p \<in> set [''can_show''] \<and> v \<in> set [''Dashboard'']}
     = {\<lparr>pv_id = 1, permission_id = Some 1, view_menu_id = Some 1\<rparr>} \<and>
   set (role_permissions (init_role s_dashboard ''Viewer'' [''Dashboard''] [''can_show''])
          \<lparr>r_id = 2, r_name = ''Viewer''\<rparr>)
     = {\<lparr>pv_id = 1, permission_id = Some 1, view_menu_id = Some 1\<rparr>} \<and>
   (\<exists>r'. ab_role (init_role s_dashboard ''Op'' [''Dashboard''] [''can_show'']) = ab_role s_dashboard @ [r'] \<and>
         set (role_permissions (init_role s_dashboard ''Op'' [''Dashboard''] [''can_show'']) r')
           = {\<lparr>pv_id = 1, permission_id = Some 1, view_menu_id = Some 1\<rparr>})"
proof -
  let ?r = "\<lparr>r_id = 2, r_name = ''Viewer''\<rparr>"
  let ?S = "{pv \<in> set (valid_pvms s_dashboard).
      \<exists>p v. pv_names s_dashboard pv = Some (p, v) \<and> p \<in> set [''can_show''] \<and> v \<in> set [''Dashboard'']}"
  have h1: "wf_store s_dashboard" by code_simp
  have h2: "find_role s_dashboard ''Viewer'' = Some ?r" by code_simp
  have h3: "role_permissions s_dashboard ?r = []" by code_simp
  have h4: "find_role s_dashboard ''Op'' = None" by code_simp
  have "?S = set (role_seed s_dashboard [''Dashboard''] [''can_show''])"
    by (simp only: role_seed_set)
  also have "role_seed s_dashboard [''Dashboard''] [''can_show'']
      = [\<lparr>pv_id = 1, permission_id = Some 1, view_menu_id = Some 1\<rparr>]" by code_simp
  finally have h5: "?S = {\<lparr>pv_id = 1, permission_id = Some 1, view_menu_id = Some 1\<rparr>}" by simp
  note T = init_role_seeds_empty_role [OF h1, of _ _ "[''Dashboard'']" "[''can_show'']"]
  from T [of "''Viewer''" ?r] h2 h3
  have a: "set (role_permissions (init_role s_dashboard ''Viewer'' [''Dashboard''] [''can_show'']) ?r) = ?S"
    by blast
  from T [of "''Op''" ?r] h4
  have b: "\<exists>r'. ab_role (init_role s_dashboard ''Op'' [''Dashboard''] [''can_show'']) = ab_role s_dashboard @ [r'] \<and>
         set (role_permissions (init_role s_dashboard ''Op'' [''Dashboard''] [''can_show'']) r') = ?S"
    by blast
  from h1 h2 h3 h4 h5 a b show ?thesis by (simp only:)
qed





theorem get_accessible_dag_ids_public_role_example:
  "get_accessible_dag_ids c_public s_wild None = Inr [''wf-1'']"
  by code_simp


text \<open>
  Claim C5, as amended. In a store that satisfies the schema constraints and has a role
  Admin, \<open>update_admin_perm_view\<close> returns normally, leaves the permission-view table as
  it is, and afterwards the collection of Admin is the union of the collection it had
  and the valid permission-views of the store; so the pass removes nothing from Admin.
  \<open>sync_roles\<close> then returns normally too, and in the store it returns Admin holds the
  permission-views it held before the run that have both references set, together with
  every valid permission-view of that store: the rows \<open>clean_perms\<close> deleted are gone
  from Admin as from every role.
\<close>

theorem update_admin_perm_view_union:
  "wf_store s \<Longrightarrow> find_role s ''Admin'' = Some admin \<Longrightarrow>
   (\<exists>s'. update_admin_perm_view s = Inr s' \<and>
         set (role_permissions s' admin) = set (role_permissions s admin) \<union> set (valid_pvms s) \<and>
         ab_permission_view s' = ab_permission_view s \<and>
         set (valid_pvms s') = set (valid_pvms s)) \<and>
   (\<exists>s1. sync_roles s = Inr s1 \<and>
         set (role_permissions s1 admin) =
           {pv \<in> set (role_permissions s admin).
              permission_id pv \<noteq> None \<and> view_menu_id pv \<noteq> None} \<union> set (valid_pvms s1))"
proof -
  assume wf: "wf_store s" and ad: "find_role s ''Admin'' = Some admin"
  let ?s' = "set_role_permissions s admin (remdups (role_permissions s admin @ valid_pvms s))"
  have "set (valid_pvms ?s') = set (valid_pvms s)"
    using valid_pvms_eq_nonfaulty [OF wf] valid_pvms_eq_nonfaulty [OF ext_wf [OF update_admin_ext [OF wf ad]]]
    by simp
  with update_admin_perm_view_Inr [OF ad] update_admin_get [OF wf, of admin]
  have 1: "\<exists>s'. update_admin_perm_view s = Inr s' \<and>
         set (role_permissions s' admin) = set (role_permissions s admin) \<union> set (valid_pvms s) \<and>
         ab_permission_view s' = ab_permission_view s \<and>
         set (valid_pvms s') = set (valid_pvms s)"
    by simp
  from sync_roles_admin [OF wf ad]
  have 2: "\<exists>s1. sync_roles s = Inr s1 \<and>
         set (role_permissions s1 admin) =
           {pv \<in> set (role_permissions s admin).
              permission_id pv \<noteq> None \<and> view_menu_id pv \<noteq> None} \<union> set (valid_pvms s1)"
    unfolding faulty_def de_Morgan_disj .
  from 1 2 show ?thesis by (rule conjI)
qed

theorem update_admin_perm_view_union_counterexample:
  "sync_roles s_admin_orphan = Inr (store_of (sync_roles s_admin_orphan)) \<and>
   \<lparr>pv_id = 1, permission_id = None, view_menu_id = Some 1\<rparr>
     \<in> set (role_permissions s_admin_orphan \<lparr>r_id = 1, r_name = ''Admin''\<rparr>) \<and>
   \<lparr>pv_id = 1, permission_id = None, view_menu_id = Some 1\<rparr>
     \<notin> set (role_permissions (store_of (sync_roles s_admin_orphan)) \<lparr>r_id = 1, r_name = ''Admin''\<rparr>) \<and>
   set (role_permissions (store_of (sync_roles s_admin_orphan)) \<lparr>r_id = 1, r_name = ''Admin''\<rparr>)
     \<noteq> set (role_permissions s_admin_orphan \<lparr>r_id = 1, r_name = ''Admin''\<rparr>)
         \<union> set (valid_pvms (store_of (sync_roles s_admin_orphan)))"
  by code_simp

theorem update_admin_perm_view_union_witness:
  "wf_store s_admin_orphan \<and>
   find_role s_admin_orphan ''Admin'' = Some \<lparr>r_id = 1, r_name = ''Admin''\<rparr> \<and>
   (\<exists>s'. update_admin_perm_view s_admin_orphan = Inr s' \<and>
         set (role_permissions s' \<lparr>r_id = 1, r_name = ''Admin''\<rparr>) =
           set (role_permissions s_admin_orphan \<lparr>r_id = 1, r_name = ''Admin''\<rparr>)
             \<union> set (valid_pvms s_admin_orphan)) \<and>
   (\<exists>s1. sync_roles s_admin_orphan = Inr s1 \<and>
         set (role_permissions s1 \<lparr>r_id = 1, r_name = ''Admin''\<rparr>) =
           {pv \<in> set (role_permissions s_admin_orphan \<lparr>r_id = 1, r_name = ''Admin''\<rparr>).
              permission_id pv \<noteq> None \<and> view_menu_id pv \<noteq> None} \<union> set (valid_pvms s1))"
proof -
  have h1: "wf_store s_admin_orphan" by code_simp
  have h2: "find_role s_admin_orphan ''Admin'' = Some \<lparr>r_id = 1, r_name = ''Admin''\<rparr>" by code_simp
  from update_admin_perm_view_union [OF h1 h2] h1 h2 show ?thesis by blast
qed



text \<open>
  Claim C7, as amended. \<open>sync_roles\<close> takes the dag models that are active or paused and
  are not subdags. In a store that satisfies the schema constraints, for each of them
  whose dag id is not empty, and for each of the two dag permissions \<open>p\<close> such that no
  valid permission-view of the store pairs a permission named as the dag id with a
  view-menu named \<open>p\<close>, the store \<open>sync_roles\<close> leaves has a valid permission-view for
  \<open>(p, dag id)\<close>. The valid permission-views the store had are all kept, with their
  names, and every permission-view row that is new pairs a dag permission with
  \<open>all_dags\<close> or with the id of one of those dag models.
\<close>

theorem sync_roles_provisions_dag_permissions:
  "wf_store s \<Longrightarrow>
   set (all_dags_models s) =
     {d \<in> set (dag_table s). (is_active d \<or> is_paused d) \<and> \<not> is_subdag d} \<and>
   (\<forall>d \<in> set (all_dags_models s). \<forall>p \<in> set DAG_PERMS.
       dag_id d \<noteq> [] \<and>
       (dag_id d, p) \<notin> set (List.map_filter (pv_names s) (ab_permission_view s)) \<longrightarrow>
       (\<exists>pv \<in> set (valid_pvms (store_of (sync_roles s))).
           pv_names (store_of (sync_roles s)) pv = Some (p, dag_id d))) \<and>
   (\<forall>pv \<in> set (valid_pvms s).
       pv \<in> set (valid_pvms (store_of (sync_roles s))) \<and>
       pv_names (store_of (sync_roles s)) pv = pv_names s pv) \<and>
   (\<forall>pv \<in> set (ab_permission_view (store_of (sync_roles s))) - set (ab_permission_view s).
       \<exists>p v. pv_names (store_of (sync_roles s)) pv = Some (p, v) \<and> p \<in> set DAG_PERMS \<and>
             (v = ''all_dags'' \<or> v \<in> dag_id ` set (all_dags_models s)))"
proof -
  assume wf: "wf_store s"
  let ?sc = "before_grant s" and ?sf = "store_of (sync_roles s)"
  note F = sync_roles_final [OF wf]
  note w = ext_wext [OF before_grant_ext [OF wf]]
  have nm: "pv_names ?sf = pv_names ?sc" by (rule pv_names_cong [OF F(2,3)])
  have 1: "set (all_dags_models s) =
     {d \<in> set (dag_table s). (is_active d \<or> is_paused d) \<and> \<not> is_subdag d}"
    by (auto simp: all_dags_models_def)
  have 2: "\<forall>d \<in> set (all_dags_models s). \<forall>p \<in> set DAG_PERMS.
       dag_id d \<noteq> [] \<and>
       (dag_id d, p) \<notin> set (List.map_filter (pv_names s) (ab_permission_view s)) \<longrightarrow>
       (\<exists>pv \<in> set (valid_pvms ?sf). pv_names ?sf pv = Some (p, dag_id d))"
  proof (intro ballI impI)
    fix d p
    assume d: "d \<in> set (all_dags_models s)" and p: "p \<in> set DAG_PERMS"
      and c: "dag_id d \<noteq> [] \<and>
       (dag_id d, p) \<notin> set (List.map_filter (pv_names s) (ab_permission_view s))"
    from before_grant_dag_found [OF wf d p] c
    obtain pv where "find_permission_view_menu ?sf p (dag_id d) = Some pv"
      unfolding F(8) by blast
    from found_named [OF F(1) this]
    show "\<exists>pv \<in> set (valid_pvms ?sf). pv_names ?sf pv = Some (p, dag_id d)" by blast
  qed
  have 3: "\<forall>pv \<in> set (valid_pvms s).
       pv \<in> set (valid_pvms ?sf) \<and> pv_names ?sf pv = pv_names s pv"
  proof
    fix pv assume v: "pv \<in> set (valid_pvms s)"
    then have pv: "pv \<in> set (ab_permission_view s)" "\<not> faulty pv"
      using valid_pvms_subset valid_pvms_nonfaulty by blast+
    with wext_pvs_subset [OF w] F(7) have m: "pv \<in> set (ab_permission_view ?sf)" by blast
    have n: "pv_names ?sf pv = pv_names s pv"
      unfolding nm by (rule wext_pv_names [OF w pv(1)])
    from m pv(2) nonfaulty_valid [OF F(1)] n
    show "pv \<in> set (valid_pvms ?sf) \<and> pv_names ?sf pv = pv_names s pv" by blast
  qed
  have 4: "\<forall>pv \<in> set (ab_permission_view ?sf) - set (ab_permission_view s).
       \<exists>p v. pv_names ?sf pv = Some (p, v) \<and> p \<in> set DAG_PERMS \<and>
             (v = ''all_dags'' \<or> v \<in> dag_id ` set (all_dags_models s))"
    using before_grant_named [OF wf] F(6) unfolding nm new_pvs_named_def by blast
  from 1 2 3 4 show ?thesis by (intro conjI)
qed

theorem sync_roles_provisions_dag_permissions_counterexample:
  "\<lparr>dag_id = [], is_active = True, is_paused = False, is_subdag = False\<rparr>
      \<in> set (all_dags_models s_empty_dag) \<and>
   sync_roles s_empty_dag = Inr (store_of (sync_roles s_empty_dag)) \<and>
   (''can_dag_read'', []) \<notin> set (List.map_filter (pv_names (store_of (sync_roles s_empty_dag)))
                                      (ab_permission_view (store_of (sync_roles s_empty_dag))))"
  by code_simp

theorem merge_pv_swapped_pair_example:
  "wf_store s_swapped \<and>
   \<lparr>dag_id = ''wf-1'', is_active = True, is_paused = False, is_subdag = False\<rparr>
      \<in> set (all_dags_models s_swapped) \<and>
   sync_roles s_swapped = Inr (store_of (sync_roles s_swapped)) \<and>
   (''can_dag_read'', ''wf-1'') \<notin> set (List.map_filter (pv_names (store_of (sync_roles s_swapped)))
                                      (ab_permission_view (store_of (sync_roles s_swapped)))) \<and>
   (''can_dag_edit'', ''wf-1'') \<in> set (List.map_filter (pv_names (store_of (sync_roles s_swapped)))
                                      (ab_permission_view (store_of (sync_roles s_swapped))))"
  by code_simp

theorem sync_roles_provisions_dag_permissions_witness:
  "wf_store s_dags \<and>
   all_dags_models s_dags = [\<lparr>dag_id = ''wf-1'', is_active = True, is_paused = False, is_subdag = False\<rparr>] \<and>
   ''can_dag_read'' \<in> set DAG_PERMS \<and> ''can_dag_edit'' \<in> set DAG_PERMS \<and>
   (''wf-1'', ''can_dag_read'') \<notin> set (List.map_filter (pv_names s_dags) (ab_permission_view s_dags)) \<and>
   (\<exists>pv \<in> set (valid_pvms (store_of (sync_roles s_dags))).
       pv_names (store_of (sync_roles s_dags)) pv = Some (''can_dag_read'', ''wf-1'')) \<and>
   (\<exists>pv \<in> set (valid_pvms (store_of (sync_roles s_dags))).
       pv_names (store_of (sync_roles s_dags)) pv = Some (''can_dag_edit'', ''wf-1'')) \<and>
   List.map_filter (pv_names (store_of (sync_roles s_dags))) (ab_permission_view (store_of (sync_roles s_dags)))
     = [(''can_dag_read'', ''all_dags''), (''can_dag_edit'', ''all_dags''),
        (''can_dag_read'', ''wf-1''), (''can_dag_edit'', ''wf-1'')]"
proof -
  let ?d = "\<lparr>dag_id = ''wf-1'', is_active = True, is_paused = False, is_subdag = False\<rparr>"
  have h1: "wf_store s_dags" by code_simp
  have h2: "all_dags_models s_dags = [?d]" by code_simp
  have h3: "''can_dag_read'' \<in> set DAG_PERMS" "''can_dag_edit'' \<in> set DAG_PERMS"
    by (simp_all add: DAG_PERMS_def)
  have h4: "(''wf-1'', ''can_dag_read'') \<notin> set (List.map_filter (pv_names s_dags) (ab_permission_view s_dags))"
    "(''wf-1'', ''can_dag_edit'') \<notin> set (List.map_filter (pv_names s_dags) (ab_permission_view s_dags))"
    by code_simp+
  have h5: "List.map_filter (pv_names (store_of (sync_roles s_dags))) (ab_permission_view (store_of (sync_roles s_dags)))
     = [(''can_dag_read'', ''all_dags''), (''can_dag_edit'', ''all_dags''),
        (''can_dag_read'', ''wf-1''), (''can_dag_edit'', ''wf-1'')]" by code_simp
  have d: "?d \<in> set (all_dags_models s_dags)" "dag_id ?d = ''wf-1''" "dag_id ?d \<noteq> []"
    by (simp_all add: h2)
  from sync_roles_provisions_dag_permissions [OF h1]
  have T: "\<forall>d \<in> set (all_dags_models s_dags). \<forall>p \<in> set DAG_PERMS.
       dag_id d \<noteq> [] \<and>
       (dag_id d, p) \<notin> set (List.map_filter (pv_names s_dags) (ab_permission_view s_dags)) \<longrightarrow>
       (\<exists>pv \<in> set (valid_pvms (store_of (sync_roles s_dags))).
           pv_names (store_of (sync_roles s_dags)) pv = Some (p, dag_id d))"
    by (elim conjE)
  from T [rule_format, OF d(1) h3(1)] d(2,3) h4(1)
  have a: "\<exists>pv \<in> set (valid_pvms (store_of (sync_roles s_dags))).
       pv_names (store_of (sync_roles s_dags)) pv = Some (''can_dag_read'', ''wf-1'')"
    by (simp only:) blast
  from T [rule_format, OF d(1) h3(2)] d(2,3) h4(2)
  have b: "\<exists>pv \<in> set (valid_pvms (store_of (sync_roles s_dags))).
       pv_names (store_of (sync_roles s_dags)) pv = Some (''can_dag_edit'', ''wf-1'')"
    by (simp only:) blast
  from h1 h2 h3 h4(1) a b h5 show ?thesis by (intro conjI)
qed







end
